theory Spec2Isabelle
  imports Main
begin

section \<open>Python strings and slices\<close>

text \<open>
  A Python \<open>str\<close> is modelled as a \<open>string\<close> whose characters are read as the code
  points U+0000 to U+00FF. Python integers are \<open>int\<close>.
\<close>

definition lower_char :: "char \<Rightarrow> char" where
  \<comment> \<open>\<open>str.lower\<close> on one code point below 256: A-Z and the Latin-1 capitals move up by 32.\<close>
  "lower_char c =
     (let k = (of_char c :: nat)
      in if (65 \<le> k \<and> k \<le> 90) \<or> (192 \<le> k \<and> k \<le> 222 \<and> k \<noteq> 215)
         then char_of (k + 32) else c)"

definition lower :: "string \<Rightarrow> string" where
  "lower s = map lower_char s"

fun startswith :: "string \<Rightarrow> string \<Rightarrow> bool" where
  "startswith s [] = True"
| "startswith [] (p # ps) = False"
| "startswith (c # cs) (p # ps) = (c = p \<and> startswith cs ps)"

fun py_in :: "string \<Rightarrow> string \<Rightarrow> bool" where
  \<comment> \<open>\<open>k in s\<close> on strings: \<open>k\<close> occurs in \<open>s\<close> as a contiguous substring.\<close>
  "py_in k [] = (k = [])"
| "py_in k (c # cs) = (startswith (c # cs) k \<or> py_in k cs)"

fun join_with :: "string \<Rightarrow> string list \<Rightarrow> string" where
  \<comment> \<open>\<open>sep.join(xs)\<close>\<close>
  "join_with sep [] = []"
| "join_with sep [x] = x"
| "join_with sep (x # y # ys) = x @ sep @ join_with sep (y # ys)"

definition is_linebreak :: "char \<Rightarrow> bool" where
  \<comment> \<open>the line boundaries of \<open>str.splitlines\<close> below U+0100:
      LF, VT, FF, CR, FS, GS, RS and NEL\<close>
  "is_linebreak c = ((of_char c :: nat) \<in> {10, 11, 12, 13, 28, 29, 30, 133})"

fun splitlines_from :: "string \<Rightarrow> string \<Rightarrow> string list" where
  \<comment> \<open>\<open>cur\<close> holds the current line reversed; CR LF is one boundary; a last line
      without a boundary is kept only when it is not empty.\<close>
  "splitlines_from cur [] = (if cur = [] then [] else [rev cur])"
| "splitlines_from cur (c # cs) =
     (if is_linebreak c then
        (case cs of
           d # ds \<Rightarrow>
             if c = CHR 0x0D \<and> d = CHR 0x0A then rev cur # splitlines_from [] ds
             else rev cur # splitlines_from [] cs
         | [] \<Rightarrow> rev cur # splitlines_from [] cs)
      else splitlines_from (c # cur) cs)"

definition splitlines :: "string \<Rightarrow> string list" where
  "splitlines s = splitlines_from [] s"

definition slice_index :: "nat \<Rightarrow> int \<Rightarrow> nat" where
  \<comment> \<open>how a slice bound is read on a sequence of length \<open>n\<close>: a negative bound counts
      from the end, and every bound is clamped to \<open>0..n\<close>\<close>
  "slice_index n i = (if i < 0 then nat (max 0 (i + int n)) else min (nat i) n)"

definition py_slice :: "'a list \<Rightarrow> int \<Rightarrow> int \<Rightarrow> 'a list" where
  \<comment> \<open>\<open>xs[lo:hi]\<close>\<close>
  "py_slice xs lo hi =
     (let a = slice_index (length xs) lo; b = slice_index (length xs) hi
      in take (b - a) (drop a xs))"

definition py_slice_to :: "'a list \<Rightarrow> int \<Rightarrow> 'a list" where
  \<comment> \<open>\<open>xs[:hi]\<close>\<close>
  "py_slice_to xs hi = take (slice_index (length xs) hi) xs"

section \<open>tools.py: the suspicious region selector\<close>

text \<open>
  A knowledge-base record; a key that is absent reads as the default of its \<open>.get\<close>:
  the empty string for \<open>id\<close>, the empty list for the others. The keys \<open>id\<close> and \<open>fixes\<close>
  are the fields \<open>item_id\<close> and \<open>item_fixes\<close>.
\<close>

record kb_item =
  item_id :: string
  cwe :: "string list"
  patterns :: "string list"
  detection_hints :: "string list"
  item_fixes :: "string list"

text \<open>\<open>FakeToolset\<close>: the fields the two tools read.\<close>

record toolset =
  vuln_kb :: "kb_item list"
  suspicious_keywords :: "string list"

text \<open>The key \<open>text\<close> of a snippet is the field \<open>snippet_text\<close>.\<close>

record snippet =
  start_line :: int
  end_line :: int
  snippet_text :: string

record select_result =
  tool :: string
  file_path :: string
  snippet_count :: nat
  snippets :: "snippet list"

fun enumerate_hits :: "(string \<Rightarrow> bool) \<Rightarrow> int \<Rightarrow> string list \<Rightarrow> int list" where
  \<comment> \<open>\<open>for idx, line in enumerate(lines): if P(line): hit_lines.append(idx)\<close>,
      counting from \<open>i\<close>\<close>
  "enumerate_hits P i [] = []"
| "enumerate_hits P i (l # ls) =
     (if P l then i # enumerate_hits P (i + 1) ls else enumerate_hits P (i + 1) ls)"

definition keyword_hit :: "string list \<Rightarrow> string \<Rightarrow> bool" where
  \<comment> \<open>\<open>any(kw.lower() in low for kw in suspicious_keywords)\<close> with \<open>low = line.lower()\<close>\<close>
  "keyword_hit kws line = list_ex (\<lambda>kw. py_in (lower kw) (lower line)) kws"

definition fallbacks :: "string list" where
  "fallbacks = [''regex'', ''pattern'', ''compile'', ''file'', ''path'', ''input'', ''sanitize'']"

definition fallback_hit :: "string \<Rightarrow> string \<Rightarrow> bool" where
  \<comment> \<open>\<open>any(k in line.lower() for k in fallbacks if k in cq_low)\<close>\<close>
  "fallback_hit cq_low line =
     list_ex (\<lambda>k. py_in k (lower line)) (filter (\<lambda>k. py_in k cq_low) fallbacks)"

definition or_empty :: "string option \<Rightarrow> string" where
  \<comment> \<open>\<open>x or ""\<close> for an optional string\<close>
  "or_empty x = (case x of None \<Rightarrow> [] | Some s \<Rightarrow> s)"

definition hit_lines :: "toolset \<Rightarrow> string list \<Rightarrow> string option \<Rightarrow> int list" where
  \<comment> \<open>the primary scan, and the fallback scan when it found nothing;
      \<open>codeql_query or ""\<close> reads \<open>None\<close> as the empty string\<close>
  "hit_lines ts lines codeql_query =
     (let hits = enumerate_hits (keyword_hit (suspicious_keywords ts)) 0 lines
      in if hits = [] then
           (let cq_low = lower (or_empty codeql_query)
            in enumerate_hits (fallback_hit cq_low) 0 lines)
         else hits)"

definition merge_step :: "int \<Rightarrow> int \<Rightarrow> (int \<times> int) list \<Rightarrow> int \<Rightarrow> (int \<times> int) list" where
  \<comment> \<open>one round of the merge loop for the hit \<open>h\<close>; \<open>ranges[-1]\<close> is \<open>last ranges\<close>\<close>
  "merge_step n w ranges h =
     (let s = max 0 (h - w); e = min (n - 1) (h + w)
      in if ranges \<noteq> [] \<and> s \<le> snd (last ranges) + 1
         then butlast ranges @ [(fst (last ranges), max (snd (last ranges)) e)]
         else ranges @ [(s, e)])"

definition merge_ranges :: "int \<Rightarrow> int \<Rightarrow> int list \<Rightarrow> (int \<times> int) list" where
  "merge_ranges n w hits = foldl (merge_step n w) [] hits"

definition effective_window :: "int \<Rightarrow> int" where
  \<comment> \<open>\<open>if context_window <= 0: context_window = 10\<close>\<close>
  "effective_window context_window = (if context_window \<le> 0 then 10 else context_window)"

definition suspicious_ranges :: "toolset \<Rightarrow> string \<Rightarrow> string option \<Rightarrow> int \<Rightarrow> (int \<times> int) list" where
  \<comment> \<open>the list \<open>ranges\<close> of \<open>select_suspicious\<close> when its merge loop has ended\<close>
  "suspicious_ranges ts file_content codeql_query context_window =
     (let lines = splitlines file_content
      in merge_ranges (int (length lines)) (effective_window context_window)
           (hit_lines ts lines codeql_query))"

definition make_snippet :: "string list \<Rightarrow> int \<times> int \<Rightarrow> snippet" where
  \<comment> \<open>the body of the last loop: \<open>"\n".join(lines[s:e+1])\<close> with 1-indexed bounds\<close>
  "make_snippet lines r =
     \<lparr>start_line = fst r + 1, end_line = snd r + 1,
      snippet_text = join_with [CHR 0x0A] (py_slice lines (fst r) (snd r + 1))\<rparr>"

definition select_suspicious ::
  "toolset \<Rightarrow> string \<Rightarrow> string \<Rightarrow> string option \<Rightarrow> int \<Rightarrow> int \<Rightarrow> select_result" where
  \<comment> \<open>the logger call writes a line and changes nothing of the result\<close>
  "select_suspicious ts fp file_content codeql_query context_window max_snippets =
     (let lines = splitlines file_content;
          ranges = suspicious_ranges ts file_content codeql_query context_window;
          snips = map (make_snippet lines) (py_slice_to ranges max_snippets)
      in \<lparr>tool = ''select_suspicious'', file_path = fp,
          snippet_count = length snips, snippets = snips\<rparr>)"

definition in_bounds :: "int \<Rightarrow> int \<times> int \<Rightarrow> bool" where
  \<comment> \<open>a range of line indices inside a file of \<open>n\<close> lines\<close>
  "in_bounds n r = (0 \<le> fst r \<and> fst r \<le> snd r \<and> snd r < n)"

definition apart :: "int \<times> int \<Rightarrow> int \<times> int \<Rightarrow> bool" where
  \<comment> \<open>the second range starts after the first has ended, with a line between them\<close>
  "apart a b = (snd a + 1 < fst b)"

section \<open>tools.py: the knowledge-base lookup\<close>

record kb_result =
  kb_tool :: string
  query :: "string option"
  hits :: "kb_item list"

definition token_char :: "char \<Rightarrow> bool" where
  \<comment> \<open>the character class \<open>[a-z0-9\-\._/]\<close>\<close>
  "token_char c =
     (let k = (of_char c :: nat)
      in (97 \<le> k \<and> k \<le> 122) \<or> (48 \<le> k \<and> k \<le> 57)
         \<or> c = CHR ''-'' \<or> c = CHR ''.'' \<or> c = CHR ''_'' \<or> c = CHR ''/'')"

fun findall_from :: "string \<Rightarrow> string \<Rightarrow> string list" where
  \<comment> \<open>\<open>re.findall\<close> of a character class under \<open>+\<close>: the matches from left to right,
      each as long as possible; \<open>cur\<close> is the current match reversed\<close>
  "findall_from cur [] = (if cur = [] then [] else [rev cur])"
| "findall_from cur (c # cs) =
     (if token_char c then findall_from (c # cur) cs
      else if cur = [] then findall_from [] cs
      else rev cur # findall_from [] cs)"

definition findall_tokens :: "string \<Rightarrow> string list" where
  \<comment> \<open>\<open>re.findall(r"[a-z0-9\-\._/]+", q)\<close>\<close>
  "findall_tokens q = findall_from [] q"

definition item_text :: "kb_item \<Rightarrow> string" where
  "item_text item =
     lower (join_with '' ''
       [join_with '' '' (cwe item), join_with '' '' (patterns item),
        join_with '' '' (detection_hints item), join_with '' '' (item_fixes item), item_id item])"

fun kb_scan :: "string \<Rightarrow> kb_item list \<Rightarrow> kb_item list" where
  \<comment> \<open>the loop over \<open>self.vuln_kb\<close>; the first test ends the round with \<open>continue\<close>\<close>
  "kb_scan q [] = []"
| "kb_scan q (item # items) =
     (if py_in (lower (item_id item)) q then item # kb_scan q items
      else if list_ex (\<lambda>tok. py_in tok (item_text item)) (findall_tokens q)
           then item # kb_scan q items
           else kb_scan q items)"

definition retrieve_vuln_kb :: "toolset \<Rightarrow> string option \<Rightarrow> kb_result" where
  "retrieve_vuln_kb ts rule_id_or_query =
     (let q = lower (or_empty rule_id_or_query)
      in \<lparr>kb_tool = ''retrieve_vuln_kb'', query = rule_id_or_query,
          hits = kb_scan q (vuln_kb ts)\<rparr>)"

fun split_from :: "(char \<Rightarrow> bool) \<Rightarrow> string \<Rightarrow> string \<Rightarrow> string list" where
  \<comment> \<open>the pieces of a string between its delimiter characters, as \<open>str.split\<close> gives
      them for one separator; \<open>cur\<close> is the current piece reversed\<close>
  "split_from d cur [] = [rev cur]"
| "split_from d cur (c # cs) =
     (if d c then rev cur # split_from d [] cs else split_from d (c # cur) cs)"

definition whitespace_or_punctuation :: "char \<Rightarrow> bool" where
  \<comment> \<open>white space (\<open>str.isspace\<close>) and ASCII punctuation (\<open>string.punctuation\<close>)\<close>
  "whitespace_or_punctuation c =
     (let k = (of_char c :: nat)
      in (9 \<le> k \<and> k \<le> 13) \<or> (28 \<le> k \<and> k \<le> 32) \<or> k = 133 \<or> k = 160
         \<or> (33 \<le> k \<and> k \<le> 47) \<or> (58 \<le> k \<and> k \<le> 64)
         \<or> (91 \<le> k \<and> k \<le> 96) \<or> (123 \<le> k \<and> k \<le> 126))"

definition tokens_as_specified :: "string \<Rightarrow> string list" where
  \<comment> \<open>the tokens in the words of the specification: the non-empty pieces of the query
      between characters that are white space or punctuation\<close>
  "tokens_as_specified q = filter (\<lambda>t. t \<noteq> []) (split_from whitespace_or_punctuation [] q)"

definition hit_as_specified :: "string \<Rightarrow> kb_item \<Rightarrow> bool" where
  \<comment> \<open>the filter in the words of the specification, case-insensitive by lower-casing\<close>
  "hit_as_specified q item =
     (py_in (lower (item_id item)) (lower q)
      \<or> list_ex (\<lambda>tok. py_in tok (item_text item)) (tokens_as_specified (lower q)))"

definition maximal_run :: "string \<Rightarrow> string \<Rightarrow> bool" where
  \<comment> \<open>\<open>t\<close> is a run of characters of the token class in \<open>q\<close> that is not empty and
      cannot be extended: on either side \<open>q\<close> ends or has a character outside the class\<close>
  "maximal_run q t =
     (t \<noteq> [] \<and> list_all token_char t
      \<and> (\<exists>pre post. q = pre @ t @ post
            \<and> (pre = [] \<or> \<not> token_char (last pre))
            \<and> (post = [] \<or> \<not> token_char (hd post))))"

section \<open>sarif\_utils.py: the artifact locator\<close>

datatype py_exception =
  FileNotFoundError | PermissionError | IsADirectoryError | UnicodeDecodeError
  | LookupError | ValueError | AttributeError

text \<open>The two fields of \<open>urlparse\<close>'s result that the code reads.\<close>

record parse_result =
  scheme :: string
  path :: string

text \<open>
  What the interpreter and the operating system provide: \<open>os.name == "nt"\<close>,
  \<open>os.path.isfile\<close>, \<open>os.path.join\<close>, \<open>os.path.normpath\<close>, \<open>urllib.parse.urlparse\<close>
  (which may raise) and \<open>urllib.parse.unquote\<close>. Reading a file in text mode has two
  parts: \<open>read_bytes\<close> opens the file and reads its bytes, or raises (a missing file, no
  permission); \<open>decode_ignore\<close> is the text layer of \<open>open(path, "r", encoding=...,
  errors="ignore")\<close>, which raises for an encoding it does not know and otherwise gives
  the text of the bytes, those that do not decode left out. The file system does not
  change during one call.
\<close>

record platform =
  os_nt :: bool
  isfile :: "string \<Rightarrow> bool"
  path_join :: "string \<Rightarrow> string \<Rightarrow> string"
  normpath :: "string \<Rightarrow> string"
  urlparse :: "string \<Rightarrow> py_exception + parse_result"
  unquote :: "string \<Rightarrow> string"
  read_bytes :: "string \<Rightarrow> py_exception + string"
  decode_ignore :: "string \<Rightarrow> string \<Rightarrow> py_exception + string"

text \<open>
  \<open>cfg["app"]\<close>: a key that is absent is \<open>None\<close>, and a configuration without the
  section \<open>app\<close> has all three absent.
\<close>

record config =
  prefer_absolute_uri :: "bool option"
  uriBaseId_map :: "(string \<rightharpoonup> string) option"
  project_root :: "string option"

text \<open>
  A result of the report and what it holds. A key is absent (\<open>None\<close>) or has a value
  of the type that SARIF gives it; \<open>None\<close> also stands for a JSON null where the code
  reads a null as it reads an absent key (\<open>locations\<close>, an entry of \<open>locations\<close>,
  \<open>artifactLocation\<close>, \<open>uri\<close>, \<open>uriBaseId\<close>). Under \<open>physicalLocation\<close> the two differ,
  so that key is absent, null or an object.
\<close>

datatype 'a json_key = Absent | Null | Present 'a

record artifact =
  uri :: "string option"
  uriBaseId :: "string option"

record physical_location =
  artifactLocation :: "artifact option"

record location =
  physicalLocation :: "physical_location json_key"

record scan_result =
  locations :: "location option list option"

definition drive_letter_pattern :: "string \<Rightarrow> bool" where
  \<comment> \<open>\<open>path.startswith("/") and len(path) > 3 and path[2] == ":"\<close>\<close>
  "drive_letter_pattern p = (startswith p ''/'' \<and> 3 < length p \<and> p ! 2 = CHR '':'')"

definition file_from_file_uri :: "platform \<Rightarrow> string \<Rightarrow> string option" where
  \<comment> \<open>\<open>_file_from_file_uri\<close>; \<open>except Exception: return None\<close> is the \<open>Inl\<close> branch\<close>
  "file_from_file_uri pf u =
     (case urlparse pf u of
        Inl _ \<Rightarrow> None
      | Inr parsed \<Rightarrow>
          if scheme parsed \<noteq> ''file'' then None
          else
            (let p = unquote pf (path parsed)
             in if os_nt pf \<and> drive_letter_pattern p then Some (tl p) else Some p))"

definition replace_backslash :: "string \<Rightarrow> string" where
  \<comment> \<open>\<open>rel_uri.replace("\\", "/")\<close>\<close>
  "replace_backslash s = map (\<lambda>c. if c = CHR 0x5C then CHR ''/'' else c) s"

definition root_of :: "config \<Rightarrow> string" where
  \<comment> \<open>\<open>app.get("project_root", "") or ""\<close>\<close>
  "root_of cfg = or_empty (project_root cfg)"

definition resolve_with_base :: "platform \<Rightarrow> string \<Rightarrow> string option \<Rightarrow> config \<Rightarrow> string" where
  \<comment> \<open>\<open>_resolve_with_base\<close>; \<open>uri_base_id and uri_base_id in base_map\<close> needs a token
      that is not empty\<close>
  "resolve_with_base pf rel_uri uri_base_id cfg =
     (let base_map = (case uriBaseId_map cfg of None \<Rightarrow> Map.empty | Some m \<Rightarrow> m);
          base_dir =
            (case uri_base_id of
               None \<Rightarrow> root_of cfg
             | Some b \<Rightarrow>
                 if b \<noteq> [] then (case base_map b of None \<Rightarrow> root_of cfg | Some d \<Rightarrow> d)
                 else root_of cfg);
          rel_path = replace_backslash rel_uri
      in normpath pf (path_join pf base_dir rel_path))"

definition prefers_absolute :: "config \<Rightarrow> bool" where
  \<comment> \<open>\<open>cfg.get("app", {}).get("prefer_absolute_uri", True)\<close>\<close>
  "prefers_absolute cfg = (case prefer_absolute_uri cfg of None \<Rightarrow> True | Some b \<Rightarrow> b)"

definition tier1 :: "platform \<Rightarrow> string \<Rightarrow> config \<Rightarrow> string option" where
  \<comment> \<open>the first block of \<open>resolve_artifact_location\<close>: \<open>Some p\<close> when it returns \<open>p\<close>,
      \<open>None\<close> when control goes on to the second block\<close>
  "tier1 pf u cfg =
     (if startswith u ''file://'' then
        (if prefers_absolute cfg then
           (case file_from_file_uri pf u of
              None \<Rightarrow> None
            | Some p \<Rightarrow> if p \<noteq> [] \<and> isfile pf p then Some p else None)
         else None)
      else None)"

definition resolve_artifact_location :: "platform \<Rightarrow> artifact \<Rightarrow> config \<Rightarrow> string option" where
  "resolve_artifact_location pf art cfg =
     (case uri art of
        None \<Rightarrow> None
      | Some u \<Rightarrow>
          if u = [] then None
          else
            (case tier1 pf u cfg of
               Some p \<Rightarrow> Some p
             | None \<Rightarrow>
                 (let abs_path = resolve_with_base pf u (uriBaseId art) cfg
                  in if isfile pf abs_path then Some abs_path
                     else
                       (let fallback = normpath pf (path_join pf (root_of cfg) u)
                        in if isfile pf fallback then Some fallback
                           else if startswith u ''file://'' then file_from_file_uri pf u
                           else Some abs_path))))"

definition location_paths ::
  "platform \<Rightarrow> config \<Rightarrow> location option \<Rightarrow> py_exception + string list" where
  \<comment> \<open>one round of the first loop of \<open>extract_result_files\<close>: what it appends to
      \<open>paths\<close>, or the exception it raises. \<open>(loc or {})\<close> reads a missing location as
      one without keys. \<open>.get("physicalLocation", {})\<close> gives \<open>{}\<close> for an absent key and
      \<open>None\<close> for a null, on which \<open>phy.get\<close> raises \<open>AttributeError\<close>. An artifact
      location that is absent or null ends the round; one that is an empty object also has
      no \<open>uri\<close>, and adds nothing either way.\<close>
  "location_paths pf cfg loc =
     (case (case loc of None \<Rightarrow> Absent | Some l \<Rightarrow> physicalLocation l) of
        Null \<Rightarrow> Inl AttributeError
      | Absent \<Rightarrow> Inr []
      | Present phy \<Rightarrow>
          (case artifactLocation phy of
             None \<Rightarrow> Inr []
           | Some a \<Rightarrow>
               (case resolve_artifact_location pf a cfg of
                  None \<Rightarrow> Inr []
                | Some p \<Rightarrow> if p \<noteq> [] then Inr [p] else Inr [])))"

fun collect_paths ::
  "platform \<Rightarrow> config \<Rightarrow> location option list \<Rightarrow> py_exception + string list" where
  \<comment> \<open>the first loop: the paths of all rounds, or the exception of the first round that
      raises\<close>
  "collect_paths pf cfg [] = Inr []"
| "collect_paths pf cfg (loc # locs) =
     (case location_paths pf cfg loc of
        Inl e \<Rightarrow> Inl e
      | Inr ps \<Rightarrow>
          (case collect_paths pf cfg locs of
             Inl e \<Rightarrow> Inl e
           | Inr qs \<Rightarrow> Inr (ps @ qs)))"

fun dedup_from :: "string set \<Rightarrow> string list \<Rightarrow> string list" where
  \<comment> \<open>the second loop: \<open>seen\<close> is the set, the result is \<open>dedup\<close> in append order\<close>
  "dedup_from seen [] = []"
| "dedup_from seen (p # ps) =
     (if p \<in> seen then dedup_from seen ps else p # dedup_from (insert p seen) ps)"

definition extract_result_files ::
  "platform \<Rightarrow> scan_result \<Rightarrow> config \<Rightarrow> py_exception + string list" where
  \<comment> \<open>\<open>res.get("locations", []) or []\<close>; nothing in the function catches an exception\<close>
  "extract_result_files pf res cfg =
     (let locs = (case locations res of None \<Rightarrow> [] | Some ls \<Rightarrow> ls)
      in case collect_paths pf cfg locs of
           Inl e \<Rightarrow> Inl e
         | Inr paths \<Rightarrow> Inr (dedup_from {} paths))"

definition safe_read_text :: "platform \<Rightarrow> string \<Rightarrow> string \<Rightarrow> int \<Rightarrow> string" where
  \<comment> \<open>\<open>except Exception: return ""\<close> is the two \<open>Inl\<close> branches\<close>
  "safe_read_text pf file enc max_chars =
     (case read_bytes pf file of
        Inl _ \<Rightarrow> []
      | Inr bs \<Rightarrow>
          (case decode_ignore pf enc bs of
             Inl _ \<Rightarrow> []
           | Inr s \<Rightarrow> if max_chars < int (length s) then py_slice_to s max_chars else s))"

section \<open>A POSIX host for the examples\<close>

text \<open>
  The examples run on a host with \<open>posixpath\<close> and a table of regular files, each with
  its bytes. A path is looked up as it is written: the table's keys are the
  paths under which the files are reached. \<open>posix_join\<close> and \<open>posix_normpath\<close> follow
  \<open>posixpath.join\<close> and \<open>posixpath.normpath\<close>. \<open>url_parse\<close> follows
  \<open>urllib.parse.urlparse\<close> of CPython 3.11 without its checks of a bracketed or
  non-ASCII host, and \<open>percent_decode\<close> follows \<open>urllib.parse.unquote\<close> on escapes of
  bytes below 0x80 (an escape of a byte from 0x80 is kept as it is written). The text
  layer knows the encodings \<open>utf-8\<close>, \<open>latin-1\<close> and \<open>ascii\<close> under these names; its UTF-8
  codec is meant for files without characters from U+0100, which the strings here do
  not have.
\<close>

definition posix_join :: "string \<Rightarrow> string \<Rightarrow> string" where
  "posix_join a b =
     (if startswith b ''/'' then b
      else if a = [] \<or> last a = CHR ''/'' then a @ b
      else a @ ''/'' @ b)"

definition normpath_step :: "nat \<Rightarrow> string list \<Rightarrow> string \<Rightarrow> string list" where
  "normpath_step initial_slashes new_comps c =
     (if c = [] \<or> c = ''.'' then new_comps
      else if c \<noteq> ''..'' \<or> (initial_slashes = 0 \<and> new_comps = [])
              \<or> (new_comps \<noteq> [] \<and> last new_comps = ''..'')
           then new_comps @ [c]
           else if new_comps \<noteq> [] then butlast new_comps
           else new_comps)"

definition posix_normpath :: "string \<Rightarrow> string" where
  "posix_normpath p =
     (if p = [] then ''.''
      else
        (let initial_slashes =
               (if startswith p ''/''
                then (if startswith p ''//'' \<and> \<not> startswith p ''///'' then 2 else 1)
                else (0::nat));
             comps = foldl (normpath_step initial_slashes) []
                       (split_from (\<lambda>c. c = CHR ''/'') [] p);
             res = replicate initial_slashes (CHR ''/'') @ join_with ''/'' comps
         in if res = [] then ''.'' else res))"

definition scheme_char :: "char \<Rightarrow> bool" where
  "scheme_char c =
     (let k = (of_char c :: nat)
      in (97 \<le> k \<and> k \<le> 122) \<or> (65 \<le> k \<and> k \<le> 90) \<or> (48 \<le> k \<and> k \<le> 57)
         \<or> c = CHR ''+'' \<or> c = CHR ''-'' \<or> c = CHR ''.'')"

definition ascii_alpha :: "char \<Rightarrow> bool" where
  "ascii_alpha c =
     (let k = (of_char c :: nat) in (97 \<le> k \<and> k \<le> 122) \<or> (65 \<le> k \<and> k \<le> 90))"

definition uses_params :: "string list" where
  "uses_params = [[], ''ftp'', ''hdl'', ''prospero'', ''http'', ''imap'', ''https'', ''shttp'',
     ''rtsp'', ''rtsps'', ''rtspu'', ''sip'', ''sips'', ''mms'', ''sftp'', ''tel'']"

definition split_scheme :: "string \<Rightarrow> string \<times> string" where
  \<comment> \<open>the scheme before the first colon, when there is one, and the rest\<close>
  "split_scheme url =
     (let front = takeWhile (\<lambda>c. c \<noteq> CHR '':'') url
      in if front \<noteq> [] \<and> length front < length url \<and> ascii_alpha (hd front)
            \<and> list_all scheme_char front
         then (lower front, drop (length front + 1) url)
         else ([], url))"

definition strip_params :: "string \<Rightarrow> string" where
  \<comment> \<open>the path of \<open>_splitparams\<close>: cut at the first semicolon of the last segment\<close>
  "strip_params url =
     (let segs = split_from (\<lambda>c. c = CHR ''/'') [] url
      in join_with ''/'' (butlast segs @ [takeWhile (\<lambda>c. c \<noteq> CHR '';'') (last segs)]))"

definition url_parse :: "string \<Rightarrow> py_exception + parse_result" where
  "url_parse url0 =
     (let url1 = dropWhile (\<lambda>c. (of_char c :: nat) \<le> 32) url0;
          url2 = filter (\<lambda>c. c \<noteq> CHR 0x09 \<and> c \<noteq> CHR 0x0D \<and> c \<noteq> CHR 0x0A) url1;
          sch = fst (split_scheme url2);
          url3 = snd (split_scheme url2);
          has_netloc = startswith url3 ''//'';
          netloc = (if has_netloc
                    then takeWhile (\<lambda>c. c \<notin> set ''/?#'') (drop 2 url3) else []);
          url4 = (if has_netloc
                  then dropWhile (\<lambda>c. c \<notin> set ''/?#'') (drop 2 url3) else url3);
          url5 = takeWhile (\<lambda>c. c \<noteq> CHR ''?'') (takeWhile (\<lambda>c. c \<noteq> CHR ''#'') url4);
          url6 = (if sch \<in> set uses_params \<and> CHR '';'' \<in> set url5
                  then strip_params url5 else url5)
      in if (CHR ''['' \<in> set netloc) \<noteq> (CHR '']'' \<in> set netloc) then Inl ValueError
         else Inr \<lparr>scheme = sch, path = url6\<rparr>)"

definition hex_val :: "char \<Rightarrow> nat option" where
  "hex_val c =
     (let k = (of_char c :: nat)
      in if 48 \<le> k \<and> k \<le> 57 then Some (k - 48)
         else if 97 \<le> k \<and> k \<le> 102 then Some (k - 87)
         else if 65 \<le> k \<and> k \<le> 70 then Some (k - 55)
         else None)"

fun percent_decode :: "string \<Rightarrow> string" where
  "percent_decode (c # a # b # rest) =
     (if c = CHR ''%'' then
        (case (hex_val a, hex_val b) of
           (Some x, Some y) \<Rightarrow>
             if 16 * x + y < 128 then char_of (16 * x + y) # percent_decode rest
             else c # percent_decode (a # b # rest)
         | _ \<Rightarrow> c # percent_decode (a # b # rest))
      else c # percent_decode (a # b # rest))"
| "percent_decode cs = cs"

fun utf8_ignore :: "string \<Rightarrow> string" where
  \<comment> \<open>the UTF-8 codec under \<open>errors="ignore"\<close>: a byte below 0x80 is its character, the
      lead bytes 0xC2 and 0xC3 with a continuation byte give U+0080 to U+00FF, and every
      other byte is dropped\<close>
  "utf8_ignore [] = []"
| "utf8_ignore (b # bs) =
     (let k = (of_char b :: nat)
      in if k < 128 then b # utf8_ignore bs
         else if k = 194 \<or> k = 195 then
           (case bs of
              [] \<Rightarrow> []
            | c # cs \<Rightarrow>
                (let j = (of_char c :: nat)
                 in if 128 \<le> j \<and> j < 192
                    then char_of ((k - 192) * 64 + (j - 128)) # utf8_ignore cs
                    else utf8_ignore bs))
         else utf8_ignore bs)"

fun translate_newlines :: "string \<Rightarrow> string" where
  \<comment> \<open>the universal newlines of text mode: CR LF and a lone CR are read as LF\<close>
  "translate_newlines [] = []"
| "translate_newlines (c # cs) =
     (if c = CHR 0x0D then
        (case cs of
           [] \<Rightarrow> [CHR 0x0A]
         | d # ds \<Rightarrow>
             if d = CHR 0x0A then CHR 0x0A # translate_newlines ds
             else CHR 0x0A # translate_newlines cs)
      else c # translate_newlines cs)"

definition decode_text :: "string \<Rightarrow> string \<Rightarrow> py_exception + string" where
  "decode_text enc bs =
     (if enc = ''utf-8'' then Inr (translate_newlines (utf8_ignore bs))
      else if enc = ''latin-1'' then Inr (translate_newlines bs)
      else if enc = ''ascii''
           then Inr (translate_newlines (filter (\<lambda>b. (of_char b :: nat) < 128) bs))
      else Inl LookupError)"

definition posix_host :: "(string \<times> string) list \<Rightarrow> platform" where
  "posix_host files =
     \<lparr>os_nt = False,
      isfile = (\<lambda>p. map_of files p \<noteq> None),
      path_join = posix_join,
      normpath = posix_normpath,
      urlparse = url_parse,
      unquote = percent_decode,
      read_bytes = (\<lambda>p. case map_of files p of
                          None \<Rightarrow> Inl FileNotFoundError | Some bs \<Rightarrow> Inr bs),
      decode_ignore = decode_text\<rparr>"

definition decoded_as_specified :: "platform \<Rightarrow> parse_result \<Rightarrow> string" where
  \<comment> \<open>the decoding rule in the words of the specification: percent-decode the path, and
      on a drive-letter pattern strip the leading separator, on every host\<close>
  "decoded_as_specified pf parsed =
     (let p = unquote pf (path parsed) in if drive_letter_pattern p then tl p else p)"

section \<open>Properties of the string functions\<close>

text \<open>\<open>startswith\<close> and \<open>py_in\<close> are the prefix and the substring relation.\<close>

lemma startswith_iff: "startswith s p = (\<exists>r. s = p @ r)"
  by (induction s p rule: startswith.induct) auto

lemma py_in_iff: "py_in k s = (\<exists>a b. s = a @ k @ b)"
proof (induction s)
  case Nil
  show ?case by auto
next
  case (Cons c cs)
  show ?case
  proof
    assume "py_in k (c # cs)"
    then consider "startswith (c # cs) k" | "py_in k cs" by auto
    then show "\<exists>a b. c # cs = a @ k @ b"
    proof cases
      case 1
      then obtain r where "c # cs = k @ r" by (auto simp: startswith_iff)
      then have "c # cs = [] @ k @ r" by simp
      then show ?thesis by blast
    next
      case 2
      then obtain a b where "cs = a @ k @ b" using Cons by blast
      then have "c # cs = (c # a) @ k @ b" by simp
      then show ?thesis by blast
    qed
  next
    assume "\<exists>a b. c # cs = a @ k @ b"
    then obtain a b where ab: "c # cs = a @ k @ b" by blast
    show "py_in k (c # cs)"
    proof (cases a)
      case Nil
      then have "startswith (c # cs) k" using ab by (auto simp: startswith_iff)
      then show ?thesis by simp
    next
      case (Cons x a')
      then have "cs = a' @ k @ b" using ab by simp
      then have "py_in k cs" using Cons.IH by blast
      then show ?thesis by simp
    qed
  qed
qed

section \<open>Properties of the selector\<close>

lemma merge_ranges_Nil: "merge_ranges n w [] = []"
  by (simp add: merge_ranges_def)

lemma merge_ranges_snoc:
  "merge_ranges n w (hs @ [h]) = merge_step n w (merge_ranges n w hs) h"
  by (simp add: merge_ranges_def)

lemma enumerate_hits_bounds:
  "h \<in> set (enumerate_hits P i ls) \<Longrightarrow> i \<le> h \<and> h < i + int (length ls)"
  by (induction ls arbitrary: i) (fastforce split: if_splits)+

lemma enumerate_hits_ascending: "sorted_wrt (<) (enumerate_hits P i ls)"
proof (induction ls arbitrary: i)
  case Nil
  show ?case by simp
next
  case (Cons l ls)
  have "\<forall>h\<in>set (enumerate_hits P (i + 1) ls). i < h"
    using enumerate_hits_bounds [of _ P "i + 1" ls] by fastforce
  with Cons show ?case by simp
qed

lemma merge_step_invariant:
  assumes w: "0 \<le> w" and h: "0 \<le> h" "h < n"
    and b: "list_all (in_bounds n) rs" and a: "sorted_wrt apart rs"
  shows "list_all (in_bounds n) (merge_step n w rs h) \<and> sorted_wrt apart (merge_step n w rs h)"
proof (cases "rs = []")
  case True
  with w h show ?thesis by (simp add: merge_step_def in_bounds_def Let_def)
next
  case False
  define bs l where "bs = butlast rs" and "l = last rs"
  have rs: "rs = bs @ [l]" using False by (simp add: bs_def l_def)
  have lb: "in_bounds n l" and bb: "list_all (in_bounds n) bs" using b rs by simp_all
  have ab: "sorted_wrt apart bs" and al: "\<forall>x\<in>set bs. apart x l"
    using a rs by (simp_all add: sorted_wrt_append)
  show ?thesis
  proof (cases "max 0 (h - w) \<le> snd l + 1")
    case True
    then have ms: "merge_step n w rs h = bs @ [(fst l, max (snd l) (min (n - 1) (h + w)))]"
      using False by (auto simp: merge_step_def Let_def bs_def l_def)
    have "in_bounds n (fst l, max (snd l) (min (n - 1) (h + w)))"
      using lb h w by (auto simp: in_bounds_def)
    moreover have "\<forall>x\<in>set bs. apart x (fst l, max (snd l) (min (n - 1) (h + w)))"
      using al by (simp add: apart_def)
    ultimately show ?thesis using bb ab by (simp add: ms sorted_wrt_append)
  next
    case False
    then have ms: "merge_step n w rs h = rs @ [(max 0 (h - w), min (n - 1) (h + w))]"
      by (auto simp: merge_step_def Let_def l_def)
    have nb: "in_bounds n (max 0 (h - w), min (n - 1) (h + w))"
      using h w by (auto simp: in_bounds_def)
    have gap: "snd l + 1 < max 0 (h - w)" using False by linarith
    have "\<forall>x\<in>set rs. apart x (max 0 (h - w), min (n - 1) (h + w))"
    proof
      fix x assume "x \<in> set rs"
      then consider "x \<in> set bs" | "x = l" using rs by auto
      then show "apart x (max 0 (h - w), min (n - 1) (h + w))"
      proof cases
        case 1
        then have "apart x l" using al by simp
        then show ?thesis using lb gap unfolding apart_def in_bounds_def by simp
      next
        case 2
        then show ?thesis using gap unfolding apart_def by simp
      qed
    qed
    then show ?thesis using nb a b by (simp add: ms sorted_wrt_append)
  qed
qed

lemma merge_ranges_invariant:
  assumes "0 \<le> w" and "\<forall>h\<in>set hs. 0 \<le> h \<and> h < n"
  shows "list_all (in_bounds n) (merge_ranges n w hs) \<and> sorted_wrt apart (merge_ranges n w hs)"
  using assms(2)
proof (induction hs rule: rev_induct)
  case Nil
  show ?case by (simp add: merge_ranges_Nil)
next
  case (snoc h hs)
  then show ?case
    using merge_step_invariant [OF assms(1), of h n "merge_ranges n w hs"]
    by (simp add: merge_ranges_snoc)
qed

lemma hit_lines_bounds:
  "h \<in> set (hit_lines ts lines q) \<Longrightarrow> 0 \<le> h \<and> h < int (length lines)"
  using enumerate_hits_bounds [of h _ 0 lines]
  by (auto simp: hit_lines_def Let_def split: if_splits)

lemma effective_window_pos: "0 < effective_window cw"
  by (simp add: effective_window_def)

lemma suspicious_ranges_invariant:
  "list_all (in_bounds (int (length (splitlines content)))) (suspicious_ranges ts content q cw)
   \<and> sorted_wrt apart (suspicious_ranges ts content q cw)"
  unfolding suspicious_ranges_def Let_def
  by (rule merge_ranges_invariant) (use effective_window_pos [of cw] hit_lines_bounds in \<open>auto simp: less_imp_le\<close>)

lemma py_slice_nonneg:
  assumes "0 \<le> a" "a \<le> b" "b < int (length xs)"
  shows "py_slice xs a (b + 1) = map (nth xs) [nat a ..< nat b + 1]"
proof -
  have ia: "slice_index (length xs) a = nat a" using assms by (simp add: slice_index_def)
  have ib: "slice_index (length xs) (b + 1) = nat b + 1"
    using assms by (simp add: slice_index_def nat_add_distrib)
  have le: "nat b + 1 \<le> length xs" using assms by linarith
  have "take (nat b + 1 - nat a) (drop (nat a) xs)
      = take (nat b + 1 - nat a) (drop (nat a) (map (nth xs) [0 ..< length xs]))"
    by (simp only: map_nth)
  also have "\<dots> = map (nth xs) (take (nat b + 1 - nat a) (drop (nat a) [0 ..< length xs]))"
    by (simp only: drop_map take_map)
  also have "\<dots> = map (nth xs) [nat a ..< nat b + 1]"
    using le assms by simp
  finally show ?thesis by (simp add: py_slice_def Let_def ia ib)
qed

lemma make_snippet_in_bounds:
  assumes "in_bounds (int (length lines)) r"
  shows "make_snippet lines r =
    \<lparr>start_line = fst r + 1, end_line = snd r + 1,
     snippet_text = join_with [CHR 0x0A] (map (nth lines) [nat (fst r) ..< nat (snd r) + 1])\<rparr>"
  using assms py_slice_nonneg [of "fst r" "snd r" lines]
  by (simp add: make_snippet_def in_bounds_def)

lemma snippets_select_suspicious:
  "snippets (select_suspicious ts fp content q cw m) =
     map (make_snippet (splitlines content)) (py_slice_to (suspicious_ranges ts content q cw) m)"
  by (simp add: select_suspicious_def Let_def)

lemma snippet_count_select_suspicious:
  "snippet_count (select_suspicious ts fp content q cw m) =
     length (snippets (select_suspicious ts fp content q cw m))"
  by (simp add: select_suspicious_def Let_def)

lemma py_slice_to_nonneg: "0 \<le> m \<Longrightarrow> py_slice_to xs m = take (nat m) xs"
  by (simp add: py_slice_to_def slice_index_def min_def)

lemma py_slice_to_neg: "m < 0 \<Longrightarrow> py_slice_to xs m = take (nat (int (length xs) + m)) xs"
  by (simp add: py_slice_to_def slice_index_def max_def add.commute)

lemma snippets_nonneg:
  assumes "0 \<le> m"
  shows "snippets (select_suspicious ts fp content q cw m) =
    map (make_snippet (splitlines content)) (take (nat m) (suspicious_ranges ts content q cw))"
  using assms by (simp add: snippets_select_suspicious py_slice_to_nonneg)

lemma snippets_neg:
  assumes "m < 0"
  shows "snippets (select_suspicious ts fp content q cw m) =
    map (make_snippet (splitlines content))
      (take (nat (int (length (suspicious_ranges ts content q cw)) + m))
        (suspicious_ranges ts content q cw))"
  using assms by (simp add: snippets_select_suspicious py_slice_to_neg)

lemma window_coerced:
  assumes "cw \<le> 0"
  shows "select_suspicious ts fp content q cw m = select_suspicious ts fp content q 10 m"
  using assms by (simp add: select_suspicious_def suspicious_ranges_def effective_window_def)

lemma merge_ranges_two_hits:
  assumes "9 \<le> n"
  shows "merge_ranges n 2 [4, 6] = [(2, 8)]"
  using assms by (simp add: merge_ranges_def merge_step_def)

lemma fallback_hit_iff:
  "fallback_hit cq line = (\<exists>k\<in>set fallbacks. py_in k cq \<and> py_in k (lower line))"
  by (auto simp: fallback_hit_def list_ex_iff)

lemma enumerate_hits_cong:
  "(\<And>l. l \<in> set ls \<Longrightarrow> P l = Q l) \<Longrightarrow> enumerate_hits P i ls = enumerate_hits Q i ls"
  by (induction ls arbitrary: i) simp_all

lemma enumerate_hits_none:
  "(\<And>l. l \<in> set ls \<Longrightarrow> \<not> P l) \<Longrightarrow> enumerate_hits P i ls = []"
  by (induction ls arbitrary: i) simp_all

lemma no_hits_no_snippets:
  assumes "hit_lines ts (splitlines content) q = []"
  shows "snippets (select_suspicious ts fp content q cw m) = []"
    and "snippet_count (select_suspicious ts fp content q cw m) = 0"
  using assms
  by (simp_all add: select_suspicious_def suspicious_ranges_def merge_ranges_Nil
      py_slice_to_def Let_def)

lemma splitlines_empty: "splitlines [] = []"
  by (simp add: splitlines_def)

lemma hit_lines_empty_file: "hit_lines ts [] q = []"
  by (simp add: hit_lines_def)

text \<open>
  Claim C4. Every hit \<open>h\<close> gives the window from \<open>h - w\<close> to \<open>h + w\<close> clamped to
  \<open>0\<close> and \<open>n - 1\<close>; the merge loop, read from left to right, extends the last range
  to the larger end when the window starts at most one line after it, and appends the
  window otherwise. For a window that is not negative and hits inside the file, and so
  for the ranges of every call of \<open>select_suspicious\<close>, the ranges lie inside the file,
  are in ascending order and do not overlap or touch. Hits at the lines 5 and 7
  (indices 4 and 6) with window 2 in a file of at least 9 lines give the one range of
  the lines 3 to 9.
\<close>

theorem merge_windows_ordered_disjoint:
  "merge_ranges n w [] = []
   \<and> merge_ranges n w (hs @ [h]) =
       (let rs = merge_ranges n w hs; s = max 0 (h - w); e = min (n - 1) (h + w)
        in if rs \<noteq> [] \<and> s \<le> snd (last rs) + 1
           then butlast rs @ [(fst (last rs), max (snd (last rs)) e)]
           else rs @ [(s, e)])
   \<and> (0 \<le> w \<and> (\<forall>x\<in>set hs. 0 \<le> x \<and> x < n) \<longrightarrow>
        list_all (in_bounds n) (merge_ranges n w hs) \<and> sorted_wrt apart (merge_ranges n w hs))
   \<and> sorted_wrt (<) (hit_lines ts (splitlines content) q)
   \<and> list_all (in_bounds (int (length (splitlines content)))) (suspicious_ranges ts content q cw)
   \<and> sorted_wrt apart (suspicious_ranges ts content q cw)
   \<and> (9 \<le> n \<longrightarrow> merge_ranges n 2 [4, 6] = [(2, 8)])
   \<and> (hit_lines ts (splitlines content) q = [4, 6] \<and> 9 \<le> length (splitlines content) \<and> 1 \<le> m \<longrightarrow>
        map (\<lambda>s. (start_line s, end_line s)) (snippets (select_suspicious ts fp content q 2 m))
          = [(3, 9)])"
proof (intro conjI impI)
  show "merge_ranges n w [] = []" by (rule merge_ranges_Nil)
  show "merge_ranges n w (hs @ [h]) =
       (let rs = merge_ranges n w hs; s = max 0 (h - w); e = min (n - 1) (h + w)
        in if rs \<noteq> [] \<and> s \<le> snd (last rs) + 1
           then butlast rs @ [(fst (last rs), max (snd (last rs)) e)]
           else rs @ [(s, e)])"
    by (simp only: merge_ranges_snoc merge_step_def Let_def)
  show "sorted_wrt (<) (hit_lines ts (splitlines content) q)"
    by (simp add: hit_lines_def Let_def enumerate_hits_ascending)
  show "list_all (in_bounds (int (length (splitlines content)))) (suspicious_ranges ts content q cw)"
    using suspicious_ranges_invariant by blast
  show "sorted_wrt apart (suspicious_ranges ts content q cw)"
    using suspicious_ranges_invariant by blast
next
  assume "0 \<le> w \<and> (\<forall>x\<in>set hs. 0 \<le> x \<and> x < n)"
  then have "list_all (in_bounds n) (merge_ranges n w hs) \<and> sorted_wrt apart (merge_ranges n w hs)"
    using merge_ranges_invariant [of w hs n] by blast
  then show "list_all (in_bounds n) (merge_ranges n w hs)"
    and "sorted_wrt apart (merge_ranges n w hs)" by simp_all
next
  assume "9 \<le> n"
  then show "merge_ranges n 2 [4, 6] = [(2, 8)]" by (rule merge_ranges_two_hits)
next
  assume a: "hit_lines ts (splitlines content) q = [4, 6] \<and> 9 \<le> length (splitlines content) \<and> 1 \<le> m"
  then have "suspicious_ranges ts content q 2 = [(2, 8)]"
    using merge_ranges_two_hits [of "int (length (splitlines content))"]
    by (simp add: suspicious_ranges_def effective_window_def)
  moreover have "take (nat m) [(2::int, 8::int)] = [(2, 8)]"
    using a by (cases "nat m") simp_all
  ultimately show "map (\<lambda>s. (start_line s, end_line s))
      (snippets (select_suspicious ts fp content q 2 m)) = [(3, 9)]"
    using a by (simp add: snippets_nonneg make_snippet_def)
qed

theorem merge_windows_ordered_disjoint_witness:
  "merge_ranges 9 2 ([4] @ [6]) = [(2, 8)]
   \<and> list_all (in_bounds 9) (merge_ranges 9 2 [4]) \<and> sorted_wrt apart (merge_ranges 9 2 [4])
   \<and> map (\<lambda>s. (start_line s, end_line s))
        (snippets (select_suspicious \<lparr>vuln_kb = [], suspicious_keywords = [''EVAL'']\<rparr> ''f.py''
          ''a\<newline>b\<newline>c\<newline>d\<newline>eval(e)\<newline>f\<newline>y = Eval(g)\<newline>h\<newline>i\<newline>j''
          None 2 3)) = [(3, 9)]"
proof -
  let ?ts = "\<lparr>vuln_kb = [], suspicious_keywords = [''EVAL'']\<rparr>"
  let ?c = "''a\<newline>b\<newline>c\<newline>d\<newline>eval(e)\<newline>f\<newline>y = Eval(g)\<newline>h\<newline>i\<newline>j''"
  have h1: "hit_lines ?ts (splitlines ?c) None = [4, 6]" by code_simp
  have h2: "9 \<le> length (splitlines ?c)" by code_simp
  have h3: "merge_ranges 9 2 [4] = [(2, 6)]" by code_simp
  show ?thesis
    using merge_windows_ordered_disjoint [of 9 2 "[4]" 6 ?ts ?c None 2 3 "''f.py''"] h1 h2 h3
    by simp
qed

text \<open>
  Claim C5, as the code has it. For \<open>max_snippets\<close> that is not negative the snippets
  are those of the first \<open>max_snippets\<close> merged ranges, at most \<open>max_snippets\<close> of them,
  \<open>snippet_count\<close> is their number, and the merged ranges are in ascending line order. The
  snippet of a range from \<open>s\<close> to \<open>e\<close> has \<open>start_line = s + 1\<close>, \<open>end_line = e + 1\<close> and
  as its text the lines \<open>s\<close> to \<open>e\<close> of the file joined by a newline.
\<close>

theorem first_max_snippets_regions:
  assumes "0 \<le> m"
  shows "snippets (select_suspicious ts fp content q cw m) =
      map (make_snippet (splitlines content)) (take (nat m) (suspicious_ranges ts content q cw))
    \<and> int (length (snippets (select_suspicious ts fp content q cw m))) \<le> m
    \<and> snippet_count (select_suspicious ts fp content q cw m) =
        length (snippets (select_suspicious ts fp content q cw m))
    \<and> sorted_wrt apart (suspicious_ranges ts content q cw)
    \<and> list_all
        (\<lambda>r. in_bounds (int (length (splitlines content))) r \<and>
             make_snippet (splitlines content) r =
               \<lparr>start_line = fst r + 1, end_line = snd r + 1,
                snippet_text = join_with [CHR 0x0A]
                  (map (nth (splitlines content)) [nat (fst r) ..< nat (snd r) + 1])\<rparr>)
        (suspicious_ranges ts content q cw)"
proof (intro conjI)
  show eq: "snippets (select_suspicious ts fp content q cw m) =
      map (make_snippet (splitlines content)) (take (nat m) (suspicious_ranges ts content q cw))"
    using assms by (rule snippets_nonneg)
  show "int (length (snippets (select_suspicious ts fp content q cw m))) \<le> m"
    using assms by (simp add: eq)
  show "snippet_count (select_suspicious ts fp content q cw m) =
        length (snippets (select_suspicious ts fp content q cw m))"
    by (rule snippet_count_select_suspicious)
  show "sorted_wrt apart (suspicious_ranges ts content q cw)"
    using suspicious_ranges_invariant by blast
  have "list_all (in_bounds (int (length (splitlines content)))) (suspicious_ranges ts content q cw)"
    using suspicious_ranges_invariant by blast
  then show "list_all
        (\<lambda>r. in_bounds (int (length (splitlines content))) r \<and>
             make_snippet (splitlines content) r =
               \<lparr>start_line = fst r + 1, end_line = snd r + 1,
                snippet_text = join_with [CHR 0x0A]
                  (map (nth (splitlines content)) [nat (fst r) ..< nat (snd r) + 1])\<rparr>)
        (suspicious_ranges ts content q cw)"
    by (simp add: list_all_iff make_snippet_in_bounds)
qed

theorem first_max_snippets_regions_witness:
  "(0::int) \<le> 3
   \<and> suspicious_ranges \<lparr>vuln_kb = [], suspicious_keywords = [''x'']\<rparr>
        ''x\<newline>a\<newline>a\<newline>a\<newline>x\<newline>a\<newline>a\<newline>a\<newline>x\<newline>a\<newline>a\<newline>a\<newline>x\<newline>a\<newline>a\<newline>a\<newline>x''
        None 1 = [(0, 1), (3, 5), (7, 9), (11, 13), (15, 16)]
   \<and> snippets (select_suspicious \<lparr>vuln_kb = [], suspicious_keywords = [''x'']\<rparr> ''f.py''
        ''x\<newline>a\<newline>a\<newline>a\<newline>x\<newline>a\<newline>a\<newline>a\<newline>x\<newline>a\<newline>a\<newline>a\<newline>x\<newline>a\<newline>a\<newline>a\<newline>x''
        None 1 3) =
      [\<lparr>start_line = 1, end_line = 2, snippet_text = ''x\<newline>a''\<rparr>,
       \<lparr>start_line = 4, end_line = 6, snippet_text = ''a\<newline>x\<newline>a''\<rparr>,
       \<lparr>start_line = 8, end_line = 10, snippet_text = ''a\<newline>x\<newline>a''\<rparr>]"
proof -
  let ?ts = "\<lparr>vuln_kb = [], suspicious_keywords = [''x'']\<rparr>"
  let ?c = "''x\<newline>a\<newline>a\<newline>a\<newline>x\<newline>a\<newline>a\<newline>a\<newline>x\<newline>a\<newline>a\<newline>a\<newline>x\<newline>a\<newline>a\<newline>a\<newline>x''"
  have r: "suspicious_ranges ?ts ?c None 1 = [(0, 1), (3, 5), (7, 9), (11, 13), (15, 16)]"
    by code_simp
  have t: "map (make_snippet (splitlines ?c)) [(0, 1), (3, 5), (7, 9)] =
      [\<lparr>start_line = 1, end_line = 2, snippet_text = ''x\<newline>a''\<rparr>,
       \<lparr>start_line = 4, end_line = 6, snippet_text = ''a\<newline>x\<newline>a''\<rparr>,
       \<lparr>start_line = 8, end_line = 10, snippet_text = ''a\<newline>x\<newline>a''\<rparr>]"
    by code_simp
  have "snippets (select_suspicious ?ts ''f.py'' ?c None 1 3) =
      map (make_snippet (splitlines ?c)) (take (nat 3) (suspicious_ranges ?ts ?c None 1))"
    using first_max_snippets_regions [of 3 ?ts "''f.py''" ?c None 1] by simp
  also have "\<dots> = map (make_snippet (splitlines ?c)) [(0, 1), (3, 5), (7, 9)]"
    by (simp add: r)
  finally show ?thesis using r t by simp
qed

text \<open>
  Claim C5 as it is stated fails for a negative \<open>max_snippets\<close>: with \<open>-1\<close> and two
  merged ranges one snippet is returned, which is more than \<open>max_snippets\<close>.
\<close>

theorem first_max_snippets_regions_counterexample:
  "snippets (select_suspicious \<lparr>vuln_kb = [], suspicious_keywords = [''x'']\<rparr> ''f.py''
      ''x\<newline>a\<newline>a\<newline>a\<newline>x'' None 1 (- 1)) =
     [\<lparr>start_line = 1, end_line = 2, snippet_text = ''x\<newline>a''\<rparr>]
   \<and> \<not> int (length (snippets (select_suspicious \<lparr>vuln_kb = [], suspicious_keywords = [''x'']\<rparr>
        ''f.py'' ''x\<newline>a\<newline>a\<newline>a\<newline>x'' None 1 (- 1)))) \<le> - 1"
proof -
  have "snippets (select_suspicious \<lparr>vuln_kb = [], suspicious_keywords = [''x'']\<rparr> ''f.py''
      ''x\<newline>a\<newline>a\<newline>a\<newline>x'' None 1 (- 1)) =
     [\<lparr>start_line = 1, end_line = 2, snippet_text = ''x\<newline>a''\<rparr>]"
    by code_simp
  then show ?thesis by simp
qed

lemma primary_hits_ignore_query:
  assumes "enumerate_hits (keyword_hit (suspicious_keywords ts)) 0 (splitlines content) \<noteq> []"
  shows "select_suspicious ts fp content q cw m = select_suspicious ts fp content q' cw m"
  using assms by (simp add: select_suspicious_def suspicious_ranges_def hit_lines_def Let_def)

text \<open>
  Claim C6. The regions that \<open>select_suspicious\<close> returns are built from the hit lines
  of the primary scan when it finds any, and otherwise from those of a second scan, in
  which a line is a hit when its lower-cased text contains one of the seven fallback
  keywords that also occurs in the lower-cased query: the windows of these hit lines are
  merged, cut to \<open>max_snippets\<close> and turned into regions. When the primary scan finds a
  line the query has no part in the result. When the primary scan finds nothing and the
  query contains none of the seven, and when the file is empty, the result has no region
  and \<open>snippet_count\<close> is zero.
\<close>

theorem fallback_scan_when_no_hits:
  "fallbacks = [''regex'', ''pattern'', ''compile'', ''file'', ''path'', ''input'', ''sanitize'']
   \<and> snippets (select_suspicious ts fp content q cw m) =
       map (make_snippet (splitlines content))
         (py_slice_to
           (merge_ranges (int (length (splitlines content))) (if cw \<le> 0 then 10 else cw)
             (if enumerate_hits (keyword_hit (suspicious_keywords ts)) 0 (splitlines content) = []
              then enumerate_hits
                     (\<lambda>line. \<exists>k\<in>set fallbacks.
                        py_in k (lower (or_empty q)) \<and> py_in k (lower line))
                     0 (splitlines content)
              else enumerate_hits (keyword_hit (suspicious_keywords ts)) 0 (splitlines content)))
           m)
   \<and> snippet_count (select_suspicious ts fp content q cw m) =
       length (snippets (select_suspicious ts fp content q cw m))
   \<and> hit_lines ts lines q =
       (if enumerate_hits (keyword_hit (suspicious_keywords ts)) 0 lines = []
        then enumerate_hits
               (\<lambda>line. \<exists>k\<in>set fallbacks. py_in k (lower (or_empty q)) \<and> py_in k (lower line))
               0 lines
        else enumerate_hits (keyword_hit (suspicious_keywords ts)) 0 lines)
   \<and> (enumerate_hits (keyword_hit (suspicious_keywords ts)) 0 (splitlines content) \<noteq> [] \<longrightarrow>
        select_suspicious ts fp content q cw m = select_suspicious ts fp content q' cw m)
   \<and> (enumerate_hits (keyword_hit (suspicious_keywords ts)) 0 (splitlines content) = []
        \<and> (\<forall>k\<in>set fallbacks. \<not> py_in k (lower (or_empty q))) \<longrightarrow>
        snippets (select_suspicious ts fp content q cw m) = []
        \<and> snippet_count (select_suspicious ts fp content q cw m) = 0)
   \<and> snippets (select_suspicious ts fp [] q cw m) = []
   \<and> snippet_count (select_suspicious ts fp [] q cw m) = 0"
proof (intro conjI impI)
  show "fallbacks = [''regex'', ''pattern'', ''compile'', ''file'', ''path'', ''input'', ''sanitize'']"
    by (rule fallbacks_def)
  have fb: "enumerate_hits (fallback_hit (lower (or_empty q))) 0 ls =
      enumerate_hits
        (\<lambda>line. \<exists>k\<in>set fallbacks. py_in k (lower (or_empty q)) \<and> py_in k (lower line)) 0 ls"
    for ls
    by (rule enumerate_hits_cong) (rule fallback_hit_iff)
  show hl: "hit_lines ts lines q =
       (if enumerate_hits (keyword_hit (suspicious_keywords ts)) 0 lines = []
        then enumerate_hits
               (\<lambda>line. \<exists>k\<in>set fallbacks. py_in k (lower (or_empty q)) \<and> py_in k (lower line))
               0 lines
        else enumerate_hits (keyword_hit (suspicious_keywords ts)) 0 lines)"
    for lines
    by (simp add: hit_lines_def Let_def fb)
  show "snippets (select_suspicious ts fp content q cw m) =
       map (make_snippet (splitlines content))
         (py_slice_to
           (merge_ranges (int (length (splitlines content))) (if cw \<le> 0 then 10 else cw)
             (if enumerate_hits (keyword_hit (suspicious_keywords ts)) 0 (splitlines content) = []
              then enumerate_hits
                     (\<lambda>line. \<exists>k\<in>set fallbacks.
                        py_in k (lower (or_empty q)) \<and> py_in k (lower line))
                     0 (splitlines content)
              else enumerate_hits (keyword_hit (suspicious_keywords ts)) 0 (splitlines content)))
           m)"
    by (simp only: snippets_select_suspicious suspicious_ranges_def Let_def effective_window_def
        hl [of "splitlines content"])
  show "snippet_count (select_suspicious ts fp content q cw m) =
       length (snippets (select_suspicious ts fp content q cw m))"
    by (rule snippet_count_select_suspicious)
  have e: "hit_lines ts (splitlines []) q = []"
    by (simp add: splitlines_empty hit_lines_empty_file)
  show "snippets (select_suspicious ts fp [] q cw m) = []"
    using e by (rule no_hits_no_snippets(1))
  show "snippet_count (select_suspicious ts fp [] q cw m) = 0"
    using e by (rule no_hits_no_snippets(2))
next
  assume "enumerate_hits (keyword_hit (suspicious_keywords ts)) 0 (splitlines content) \<noteq> []"
  then show "select_suspicious ts fp content q cw m = select_suspicious ts fp content q' cw m"
    by (rule primary_hits_ignore_query)
next
  assume a: "enumerate_hits (keyword_hit (suspicious_keywords ts)) 0 (splitlines content) = []
        \<and> (\<forall>k\<in>set fallbacks. \<not> py_in k (lower (or_empty q)))"
  then have "enumerate_hits (fallback_hit (lower (or_empty q))) 0 (splitlines content) = []"
    by (intro enumerate_hits_none) (simp add: fallback_hit_iff)
  with a have h: "hit_lines ts (splitlines content) q = []"
    by (simp add: hit_lines_def Let_def)
  show "snippets (select_suspicious ts fp content q cw m) = []"
    using h by (rule no_hits_no_snippets(1))
  show "snippet_count (select_suspicious ts fp content q cw m) = 0"
    using h by (rule no_hits_no_snippets(2))
qed

theorem fallback_scan_when_no_hits_witness:
  "snippets (select_suspicious \<lparr>vuln_kb = [], suspicious_keywords = [''eval'']\<rparr> ''f.py''
        ''import re\<newline>p = re.Compile(s)\<newline>open(path)''
        (Some ''Uses a regex that is COMPILEd'') 1 3)
     = [\<lparr>start_line = 1, end_line = 3,
         snippet_text = ''import re\<newline>p = re.Compile(s)\<newline>open(path)''\<rparr>]
   \<and> snippets (select_suspicious \<lparr>vuln_kb = [], suspicious_keywords = [''eval'']\<rparr> ''f.py''
        ''import re\<newline>p = re.Compile(s)\<newline>open(path)''
        (Some ''Reads a PATH from the user'') 1 3)
     = [\<lparr>start_line = 2, end_line = 3, snippet_text = ''p = re.Compile(s)\<newline>open(path)''\<rparr>]
   \<and> snippets (select_suspicious \<lparr>vuln_kb = [], suspicious_keywords = [''eval'']\<rparr> ''f.py''
        ''import re\<newline>p = re.Compile(s)\<newline>open(path)'' (Some ''SQL injection'') 1 3) = []
   \<and> snippet_count (select_suspicious \<lparr>vuln_kb = [], suspicious_keywords = [''eval'']\<rparr> ''f.py''
        ''import re\<newline>p = re.Compile(s)\<newline>open(path)'' (Some ''SQL injection'') 1 3) = 0
   \<and> select_suspicious \<lparr>vuln_kb = [], suspicious_keywords = [''OPEN'']\<rparr> ''f.py''
        ''import re\<newline>p = re.Compile(s)\<newline>open(path)'' (Some ''regex and compile'') 1 3
     = select_suspicious \<lparr>vuln_kb = [], suspicious_keywords = [''OPEN'']\<rparr> ''f.py''
        ''import re\<newline>p = re.Compile(s)\<newline>open(path)'' None 1 3"
proof -
  let ?ts = "\<lparr>vuln_kb = [], suspicious_keywords = [''eval'']\<rparr>"
  let ?to = "\<lparr>vuln_kb = [], suspicious_keywords = [''OPEN'']\<rparr>"
  let ?c = "''import re\<newline>p = re.Compile(s)\<newline>open(path)''"
  let ?rhs = "\<lambda>q. map (make_snippet (splitlines ?c))
         (py_slice_to
           (merge_ranges (int (length (splitlines ?c))) (if (1::int) \<le> 0 then 10 else 1)
             (if enumerate_hits (keyword_hit (suspicious_keywords ?ts)) 0 (splitlines ?c) = []
              then enumerate_hits
                     (\<lambda>line. \<exists>k\<in>set fallbacks.
                        py_in k (lower (or_empty q)) \<and> py_in k (lower line))
                     0 (splitlines ?c)
              else enumerate_hits (keyword_hit (suspicious_keywords ?ts)) 0 (splitlines ?c)))
           3)"
  have e1: "?rhs (Some ''Uses a regex that is COMPILEd'')
      = [\<lparr>start_line = 1, end_line = 3,
          snippet_text = ''import re\<newline>p = re.Compile(s)\<newline>open(path)''\<rparr>]"
    by code_simp
  have e2: "?rhs (Some ''Reads a PATH from the user'')
      = [\<lparr>start_line = 2, end_line = 3, snippet_text = ''p = re.Compile(s)\<newline>open(path)''\<rparr>]"
    by code_simp
  have p3: "enumerate_hits (keyword_hit (suspicious_keywords ?ts)) 0 (splitlines ?c) = []"
    by code_simp
  have p4: "\<forall>k\<in>set fallbacks. \<not> py_in k (lower (or_empty (Some ''SQL injection'')))"
    by code_simp
  have p5: "enumerate_hits (keyword_hit (suspicious_keywords ?to)) 0 (splitlines ?c) \<noteq> []"
    by code_simp
  have a1: "snippets (select_suspicious ?ts ''f.py'' ?c (Some ''Uses a regex that is COMPILEd'') 1 3)
      = ?rhs (Some ''Uses a regex that is COMPILEd'')"
    using fallback_scan_when_no_hits
      [where ts = ?ts and content = ?c and q = "Some ''Uses a regex that is COMPILEd''"
        and cw = 1 and m = 3 and fp = "''f.py''"]
    by blast
  have a2: "snippets (select_suspicious ?ts ''f.py'' ?c (Some ''Reads a PATH from the user'') 1 3)
      = ?rhs (Some ''Reads a PATH from the user'')"
    using fallback_scan_when_no_hits
      [where ts = ?ts and content = ?c and q = "Some ''Reads a PATH from the user''"
        and cw = 1 and m = 3 and fp = "''f.py''"]
    by blast
  have b: "snippets (select_suspicious ?ts ''f.py'' ?c (Some ''SQL injection'') 1 3) = []
      \<and> snippet_count (select_suspicious ?ts ''f.py'' ?c (Some ''SQL injection'') 1 3) = 0"
    using fallback_scan_when_no_hits
      [where ts = ?ts and content = ?c and q = "Some ''SQL injection''"
        and cw = 1 and m = 3 and fp = "''f.py''"] p3 p4
    by blast
  have c: "select_suspicious ?to ''f.py'' ?c (Some ''regex and compile'') 1 3
      = select_suspicious ?to ''f.py'' ?c None 1 3"
    using fallback_scan_when_no_hits
      [where ts = ?to and content = ?c and q = "Some ''regex and compile''" and q' = None
        and cw = 1 and m = 3 and fp = "''f.py''"] p5
    by blast
  show ?thesis using a1 a2 b c e1 e2 by simp
qed

text \<open>
  Claim C10. For a negative \<open>max_snippets\<close> and \<open>k\<close> merged ranges the snippets are
  those of the first \<open>max 0 (k - |max_snippets|)\<close> ranges: the slice drops ranges from the
  end, and the number of snippets is not bounded by \<open>max_snippets\<close>. A window that is
  not positive is replaced by 10; nothing replaces \<open>max_snippets\<close>.
\<close>

theorem negative_max_snippets_drops_from_end:
  assumes "m < 0"
  shows "snippets (select_suspicious ts fp content q cw m) =
      map (make_snippet (splitlines content))
        (take (nat (max 0 (int (length (suspicious_ranges ts content q cw)) - \<bar>m\<bar>)))
          (suspicious_ranges ts content q cw))
    \<and> length (snippets (select_suspicious ts fp content q cw m)) =
        nat (max 0 (int (length (suspicious_ranges ts content q cw)) - \<bar>m\<bar>))
    \<and> m < int (length (snippets (select_suspicious ts fp content q cw m)))
    \<and> (cw \<le> 0 \<longrightarrow>
        select_suspicious ts fp content q cw m = select_suspicious ts fp content q 10 m)"
proof (intro conjI impI)
  have k: "nat (max 0 (int (length (suspicious_ranges ts content q cw)) - \<bar>m\<bar>))
      = nat (int (length (suspicious_ranges ts content q cw)) + m)"
    using assms by simp
  show eq: "snippets (select_suspicious ts fp content q cw m) =
      map (make_snippet (splitlines content))
        (take (nat (max 0 (int (length (suspicious_ranges ts content q cw)) - \<bar>m\<bar>)))
          (suspicious_ranges ts content q cw))"
    using assms by (simp only: k snippets_neg)
  show "length (snippets (select_suspicious ts fp content q cw m)) =
        nat (max 0 (int (length (suspicious_ranges ts content q cw)) - \<bar>m\<bar>))"
    using assms by (simp add: eq)
  show "m < int (length (snippets (select_suspicious ts fp content q cw m)))"
    using assms by simp
next
  assume "cw \<le> 0"
  then show "select_suspicious ts fp content q cw m = select_suspicious ts fp content q 10 m"
    by (rule window_coerced)
qed

theorem negative_max_snippets_drops_from_end_witness:
  "(- 1::int) < 0
   \<and> length (suspicious_ranges \<lparr>vuln_kb = [], suspicious_keywords = [''x'']\<rparr>
        ''x\<newline>a\<newline>a\<newline>a\<newline>x\<newline>a\<newline>a\<newline>a\<newline>x'' None 1) = 3
   \<and> length (snippets (select_suspicious \<lparr>vuln_kb = [], suspicious_keywords = [''x'']\<rparr> ''f.py''
        ''x\<newline>a\<newline>a\<newline>a\<newline>x\<newline>a\<newline>a\<newline>a\<newline>x'' None 1 (- 1))) = 2
   \<and> length (snippets (select_suspicious \<lparr>vuln_kb = [], suspicious_keywords = [''x'']\<rparr> ''f.py''
        ''x\<newline>a\<newline>a\<newline>a\<newline>x\<newline>a\<newline>a\<newline>a\<newline>x'' None 1 (- 5))) = 0
   \<and> select_suspicious \<lparr>vuln_kb = [], suspicious_keywords = [''x'']\<rparr> ''f.py''
        ''x\<newline>a\<newline>a\<newline>a\<newline>x\<newline>a\<newline>a\<newline>a\<newline>x'' None (- 4) (- 1)
      = select_suspicious \<lparr>vuln_kb = [], suspicious_keywords = [''x'']\<rparr> ''f.py''
        ''x\<newline>a\<newline>a\<newline>a\<newline>x\<newline>a\<newline>a\<newline>a\<newline>x'' None 10 (- 1)"
proof -
  let ?ts = "\<lparr>vuln_kb = [], suspicious_keywords = [''x'']\<rparr>"
  let ?c = "''x\<newline>a\<newline>a\<newline>a\<newline>x\<newline>a\<newline>a\<newline>a\<newline>x''"
  have r: "length (suspicious_ranges ?ts ?c None 1) = 3" by code_simp
  show ?thesis
    using negative_max_snippets_drops_from_end [of "- 1" ?ts "''f.py''" ?c None 1]
      negative_max_snippets_drops_from_end [of "- 5" ?ts "''f.py''" ?c None 1]
      negative_max_snippets_drops_from_end [of "- 1" ?ts "''f.py''" ?c None "- 4"] r
    by simp
qed

section \<open>Properties of the artifact locator\<close>

lemma startswith_nonempty: "startswith u (p # ps) \<Longrightarrow> u \<noteq> []"
  by (cases u) simp_all

lemma resolve_by_tier1:
  assumes "uri art = Some u" "u \<noteq> []" "tier1 pf u cfg = Some p"
  shows "resolve_artifact_location pf art cfg = Some p"
  using assms by (simp add: resolve_artifact_location_def)

lemma resolve_after_tier1:
  assumes "uri art = Some u" "u \<noteq> []" "tier1 pf u cfg = None"
  shows "resolve_artifact_location pf art cfg =
    (if isfile pf (resolve_with_base pf u (uriBaseId art) cfg)
     then Some (resolve_with_base pf u (uriBaseId art) cfg)
     else if isfile pf (normpath pf (path_join pf (root_of cfg) u))
          then Some (normpath pf (path_join pf (root_of cfg) u))
          else if startswith u ''file://'' then file_from_file_uri pf u
               else Some (resolve_with_base pf u (uriBaseId art) cfg))"
  using assms by (simp add: resolve_artifact_location_def Let_def)

lemma tier1_relative: "\<not> startswith u ''file://'' \<Longrightarrow> tier1 pf u cfg = None"
  by (simp add: tier1_def)

lemma tier1_None_iff:
  "tier1 pf u cfg = None \<longleftrightarrow>
     \<not> (startswith u ''file://'' \<and> prefers_absolute cfg
        \<and> (\<exists>p. file_from_file_uri pf u = Some p \<and> p \<noteq> [] \<and> isfile pf p))"
  by (auto simp: tier1_def split: option.splits)

lemma resolve_with_base_mapped:
  assumes "b \<noteq> []" "uriBaseId_map cfg = Some bm" "bm b = Some d"
  shows "resolve_with_base pf u (Some b) cfg = normpath pf (path_join pf d (replace_backslash u))"
  using assms by (simp add: resolve_with_base_def)

text \<open>
  Claim C1, as the code has it. For a URI that starts with \<open>file://\<close> and parses with
  the scheme \<open>file\<close>, when the configuration prefers absolute URIs, the decoded path is
  the percent-decoded path of the URI, with its leading separator stripped when the host
  is Windows (\<open>os.name == "nt"\<close>) and the path has the drive-letter pattern. When the
  decoded path is a regular file, \<open>resolve_artifact_location\<close> returns exactly it, before
  any later tier. (The empty path names no regular file.)
\<close>

theorem file_uri_returns_decoded_path:
  assumes "uri art = Some u" and "startswith u ''file://''" and "prefers_absolute cfg"
    and "urlparse pf u = Inr parsed" and "scheme parsed = ''file''"
    and "p = (let d = unquote pf (path parsed)
              in if os_nt pf \<and> drive_letter_pattern d then tl d else d)"
    and "isfile pf p" and "\<not> isfile pf []"
  shows "file_from_file_uri pf u = Some p \<and> resolve_artifact_location pf art cfg = Some p"
proof -
  have d: "file_from_file_uri pf u = Some p"
    using assms(4,5,6) by (simp add: file_from_file_uri_def Let_def)
  have "p \<noteq> []" using assms(7,8) by auto
  then have "tier1 pf u cfg = Some p"
    using d assms(2,3,7) by (simp add: tier1_def)
  then have "resolve_artifact_location pf art cfg = Some p"
    using assms(1) startswith_nonempty [OF assms(2)] by (intro resolve_by_tier1) simp_all
  with d show ?thesis by simp
qed

theorem file_uri_returns_decoded_path_witness:
  "startswith ''file:///tmp/a%20b.c'' ''file://''
   \<and> isfile (posix_host [(''/tmp/a b.c'', ''int x;'')]) ''/tmp/a b.c''
   \<and> resolve_artifact_location (posix_host [(''/tmp/a b.c'', ''int x;'')])
        \<lparr>uri = Some ''file:///tmp/a%20b.c'', uriBaseId = Some ''SRCROOT''\<rparr>
        \<lparr>prefer_absolute_uri = None, uriBaseId_map = None, project_root = Some ''/proj''\<rparr>
      = Some ''/tmp/a b.c''
   \<and> (\<forall>join norm.
        resolve_artifact_location
          \<lparr>os_nt = True, isfile = (\<lambda>p. p = ''D:/x.c''), path_join = join, normpath = norm,
           urlparse = url_parse, unquote = percent_decode,
           read_bytes = (\<lambda>p. Inl FileNotFoundError), decode_ignore = decode_text\<rparr>
          \<lparr>uri = Some ''file:///D:/x.c'', uriBaseId = None\<rparr>
          \<lparr>prefer_absolute_uri = Some True, uriBaseId_map = None, project_root = None\<rparr>
        = Some ''D:/x.c'')"
proof -
  let ?H = "posix_host [(''/tmp/a b.c'', ''int x;'')]"
  let ?art = "\<lparr>uri = Some ''file:///tmp/a%20b.c'', uriBaseId = Some ''SRCROOT''\<rparr>"
  let ?cfg = "\<lparr>prefer_absolute_uri = None, uriBaseId_map = None, project_root = Some ''/proj''\<rparr>"
  let ?parsed = "\<lparr>scheme = ''file'', path = ''/tmp/a%20b.c''\<rparr>"
  have a1: "uri ?art = Some ''file:///tmp/a%20b.c''" by simp
  have a2: "startswith ''file:///tmp/a%20b.c'' ''file://''" by code_simp
  have a3: "prefers_absolute ?cfg" by (simp add: prefers_absolute_def)
  have a4: "urlparse ?H ''file:///tmp/a%20b.c'' = Inr ?parsed" by code_simp
  have a5: "scheme ?parsed = ''file''" by simp
  have a6: "''/tmp/a b.c'' = (let d = unquote ?H (path ?parsed)
              in if os_nt ?H \<and> drive_letter_pattern d then tl d else d)" by code_simp
  have a7: "isfile ?H ''/tmp/a b.c''" by code_simp
  have a8: "\<not> isfile ?H []" by code_simp
  have posix: "resolve_artifact_location ?H ?art ?cfg = Some ''/tmp/a b.c''"
    using file_uri_returns_decoded_path [OF a1 a2 a3 a4 a5 a6 a7 a8] by simp
  have nt: "resolve_artifact_location
          \<lparr>os_nt = True, isfile = (\<lambda>p. p = ''D:/x.c''), path_join = join, normpath = norm,
           urlparse = url_parse, unquote = percent_decode,
           read_bytes = (\<lambda>p. Inl FileNotFoundError), decode_ignore = decode_text\<rparr>
          \<lparr>uri = Some ''file:///D:/x.c'', uriBaseId = None\<rparr>
          \<lparr>prefer_absolute_uri = Some True, uriBaseId_map = None, project_root = None\<rparr>
        = Some ''D:/x.c''" for join norm
  proof -
    let ?W = "\<lparr>os_nt = True, isfile = (\<lambda>p. p = ''D:/x.c''), path_join = join, normpath = norm,
           urlparse = url_parse, unquote = percent_decode,
           read_bytes = (\<lambda>p. Inl FileNotFoundError), decode_ignore = decode_text\<rparr>"
    let ?wart = "\<lparr>uri = Some ''file:///D:/x.c'', uriBaseId = None\<rparr>"
    let ?wcfg = "\<lparr>prefer_absolute_uri = Some True, uriBaseId_map = None, project_root = None\<rparr>"
    let ?wparsed = "\<lparr>scheme = ''file'', path = ''/D:/x.c''\<rparr>"
    have up: "url_parse ''file:///D:/x.c'' = Inr ?wparsed" by code_simp
    have pd: "percent_decode ''/D:/x.c'' = ''/D:/x.c''" by code_simp
    have dl: "drive_letter_pattern ''/D:/x.c''" by code_simp
    have b1: "uri ?wart = Some ''file:///D:/x.c''" by simp
    have b2: "startswith ''file:///D:/x.c'' ''file://''" by code_simp
    have b3: "prefers_absolute ?wcfg" by (simp add: prefers_absolute_def)
    have b4: "urlparse ?W ''file:///D:/x.c'' = Inr ?wparsed" by (simp add: up)
    have b5: "scheme ?wparsed = ''file''" by simp
    have b6: "''D:/x.c'' = (let d = unquote ?W (path ?wparsed)
              in if os_nt ?W \<and> drive_letter_pattern d then tl d else d)"
      by (simp add: pd dl)
    have b7: "isfile ?W ''D:/x.c''" by simp
    have b8: "\<not> isfile ?W []" by simp
    show ?thesis
      using file_uri_returns_decoded_path [OF b1 b2 b3 b4 b5 b6 b7 b8] by simp
  qed
  show ?thesis using posix nt a2 a7 by simp
qed

text \<open>
  Claim C1 as it is stated strips the leading separator on every host. On a POSIX host
  the code does not: for \<open>file:///D:/x.c\<close> the stripped path \<open>D:/x.c\<close> is a regular
  file here, and the result is \<open>/D:/x.c\<close>.
\<close>

theorem file_uri_returns_decoded_path_counterexample:
  "startswith ''file:///D:/x.c'' ''file://''
   \<and> prefers_absolute
        \<lparr>prefer_absolute_uri = Some True, uriBaseId_map = None, project_root = Some ''/proj''\<rparr>
   \<and> urlparse (posix_host [(''D:/x.c'', ''int x;'')]) ''file:///D:/x.c''
        = Inr \<lparr>scheme = ''file'', path = ''/D:/x.c''\<rparr>
   \<and> decoded_as_specified (posix_host [(''D:/x.c'', ''int x;'')])
        \<lparr>scheme = ''file'', path = ''/D:/x.c''\<rparr> = ''D:/x.c''
   \<and> isfile (posix_host [(''D:/x.c'', ''int x;'')]) ''D:/x.c''
   \<and> resolve_artifact_location (posix_host [(''D:/x.c'', ''int x;'')])
        \<lparr>uri = Some ''file:///D:/x.c'', uriBaseId = None\<rparr>
        \<lparr>prefer_absolute_uri = Some True, uriBaseId_map = None, project_root = Some ''/proj''\<rparr>
      = Some ''/D:/x.c''
   \<and> ''/D:/x.c'' \<noteq> ''D:/x.c''"
  by code_simp

lemma resolve_with_base_root:
  assumes "uriBaseId art = None \<or> uriBaseId art = Some [] \<or> uriBaseId_map cfg = None
      \<or> (\<exists>b bm. uriBaseId art = Some b \<and> uriBaseId_map cfg = Some bm \<and> bm b = None)"
  shows "resolve_with_base pf u (uriBaseId art) cfg
      = normpath pf (path_join pf (root_of cfg) (replace_backslash u))"
  using assms by (auto simp: resolve_with_base_def split: option.splits)

text \<open>
  Claim C2, as the code has it. Take a URI that is not empty and does not start with
  \<open>file://\<close>. For a base token that is not empty and has a directory in the base-path
  mapping: when the normalised join of that directory and the URI with its backslashes
  turned into slashes is a regular file, it is the result; when it is not, and the
  normalised join of the project root and the URI as it is written is a regular file,
  that is the result. Without such a token the project root takes the place of the
  mapped directory.
\<close>

theorem base_token_resolution:
  assumes "uri art = Some u" and "u \<noteq> []" and "\<not> startswith u ''file://''"
  shows "(uriBaseId art = Some b \<and> b \<noteq> [] \<and> uriBaseId_map cfg = Some bm \<and> bm b = Some d \<longrightarrow>
          (isfile pf (normpath pf (path_join pf d (replace_backslash u))) \<longrightarrow>
             resolve_artifact_location pf art cfg
               = Some (normpath pf (path_join pf d (replace_backslash u))))
          \<and> (\<not> isfile pf (normpath pf (path_join pf d (replace_backslash u)))
             \<and> isfile pf (normpath pf (path_join pf (root_of cfg) u)) \<longrightarrow>
             resolve_artifact_location pf art cfg
               = Some (normpath pf (path_join pf (root_of cfg) u))))
       \<and> (uriBaseId art = None \<or> uriBaseId art = Some [] \<or> uriBaseId_map cfg = None
           \<or> (\<exists>b bm. uriBaseId art = Some b \<and> uriBaseId_map cfg = Some bm \<and> bm b = None) \<longrightarrow>
          (isfile pf (normpath pf (path_join pf (root_of cfg) (replace_backslash u))) \<longrightarrow>
             resolve_artifact_location pf art cfg
               = Some (normpath pf (path_join pf (root_of cfg) (replace_backslash u))))
          \<and> (\<not> isfile pf (normpath pf (path_join pf (root_of cfg) (replace_backslash u)))
             \<and> isfile pf (normpath pf (path_join pf (root_of cfg) u)) \<longrightarrow>
             resolve_artifact_location pf art cfg
               = Some (normpath pf (path_join pf (root_of cfg) u))))"
proof (intro conjI impI)
  have t: "tier1 pf u cfg = None" using assms(3) by (rule tier1_relative)
  note r = resolve_after_tier1 [OF assms(1,2) t]
  {
    assume a: "uriBaseId art = Some b \<and> b \<noteq> [] \<and> uriBaseId_map cfg = Some bm \<and> bm b = Some d"
    then have m: "resolve_with_base pf u (uriBaseId art) cfg
        = normpath pf (path_join pf d (replace_backslash u))"
      using resolve_with_base_mapped [of b cfg bm d pf u] by simp
    {
      assume "isfile pf (normpath pf (path_join pf d (replace_backslash u)))"
      then show "resolve_artifact_location pf art cfg
               = Some (normpath pf (path_join pf d (replace_backslash u)))"
        using r by (simp add: m)
    }
    {
      assume "\<not> isfile pf (normpath pf (path_join pf d (replace_backslash u)))
             \<and> isfile pf (normpath pf (path_join pf (root_of cfg) u))"
      then show "resolve_artifact_location pf art cfg
               = Some (normpath pf (path_join pf (root_of cfg) u))"
        using r by (simp add: m)
    }
  }
  {
    assume "uriBaseId art = None \<or> uriBaseId art = Some [] \<or> uriBaseId_map cfg = None
           \<or> (\<exists>b bm. uriBaseId art = Some b \<and> uriBaseId_map cfg = Some bm \<and> bm b = None)"
    then have m: "resolve_with_base pf u (uriBaseId art) cfg
        = normpath pf (path_join pf (root_of cfg) (replace_backslash u))"
      by (rule resolve_with_base_root)
    {
      assume "isfile pf (normpath pf (path_join pf (root_of cfg) (replace_backslash u)))"
      then show "resolve_artifact_location pf art cfg
               = Some (normpath pf (path_join pf (root_of cfg) (replace_backslash u)))"
        using r by (simp add: m)
    }
    {
      assume "\<not> isfile pf (normpath pf (path_join pf (root_of cfg) (replace_backslash u)))
             \<and> isfile pf (normpath pf (path_join pf (root_of cfg) u))"
      then show "resolve_artifact_location pf art cfg
               = Some (normpath pf (path_join pf (root_of cfg) u))"
        using r by (simp add: m)
    }
  }
qed

theorem base_token_resolution_witness:
  "resolve_artifact_location (posix_host [(''/src/a/b.c'', ''int x;''), (''/proj/c.c'', ''int y;'')])
        \<lparr>uri = Some [CHR ''a'', CHR 0x5C, CHR ''b'', CHR ''.'', CHR ''c''], uriBaseId = Some ''SRCROOT''\<rparr>
        \<lparr>prefer_absolute_uri = None, uriBaseId_map = Some [''SRCROOT'' \<mapsto> ''/src''],
         project_root = Some ''/proj''\<rparr>
      = Some ''/src/a/b.c''
   \<and> resolve_artifact_location (posix_host [(''/src/a/b.c'', ''int x;''), (''/proj/c.c'', ''int y;'')])
        \<lparr>uri = Some ''c.c'', uriBaseId = Some ''SRCROOT''\<rparr>
        \<lparr>prefer_absolute_uri = None, uriBaseId_map = Some [''SRCROOT'' \<mapsto> ''/src''],
         project_root = Some ''/proj''\<rparr>
      = Some ''/proj/c.c''
   \<and> resolve_artifact_location (posix_host [(''/src/a/b.c'', ''int x;''), (''/proj/c.c'', ''int y;'')])
        \<lparr>uri = Some ''./c.c'', uriBaseId = Some ''OTHER''\<rparr>
        \<lparr>prefer_absolute_uri = None, uriBaseId_map = Some [''SRCROOT'' \<mapsto> ''/src''],
         project_root = Some ''/proj''\<rparr>
      = Some ''/proj/c.c''"
proof -
  let ?H = "posix_host [(''/src/a/b.c'', ''int x;''), (''/proj/c.c'', ''int y;'')]"
  let ?u1 = "[CHR ''a'', CHR 0x5C, CHR ''b'', CHR ''.'', CHR ''c'']"
  let ?art1 = "\<lparr>uri = Some ?u1, uriBaseId = Some ''SRCROOT''\<rparr>"
  let ?art2 = "\<lparr>uri = Some ''c.c'', uriBaseId = Some ''SRCROOT''\<rparr>"
  let ?art3 = "\<lparr>uri = Some ''./c.c'', uriBaseId = Some ''OTHER''\<rparr>"
  let ?bm = "[''SRCROOT'' \<mapsto> ''/src'']"
  let ?cfg = "\<lparr>prefer_absolute_uri = None, uriBaseId_map = Some ?bm,
         project_root = Some ''/proj''\<rparr>"
  have tok: "uriBaseId ?art1 = Some ''SRCROOT'' \<and> ''SRCROOT'' \<noteq> []
      \<and> uriBaseId_map ?cfg = Some ?bm \<and> ?bm ''SRCROOT'' = Some ''/src''"
    and tok2: "uriBaseId ?art2 = Some ''SRCROOT'' \<and> ''SRCROOT'' \<noteq> []
      \<and> uriBaseId_map ?cfg = Some ?bm \<and> ?bm ''SRCROOT'' = Some ''/src''"
    by simp_all
  have "uriBaseId ?art3 = Some ''OTHER'' \<and> uriBaseId_map ?cfg = Some ?bm \<and> ?bm ''OTHER'' = None"
    by simp
  then have tok3: "uriBaseId ?art3 = None \<or> uriBaseId ?art3 = Some [] \<or> uriBaseId_map ?cfg = None
      \<or> (\<exists>b bm. uriBaseId ?art3 = Some b \<and> uriBaseId_map ?cfg = Some bm \<and> bm b = None)"
    by blast
  have u1: "uri ?art1 = Some ?u1" "?u1 \<noteq> []" by simp_all
  have u2: "uri ?art2 = Some ''c.c''" "''c.c'' \<noteq> []" by simp_all
  have u3: "uri ?art3 = Some ''./c.c''" "''./c.c'' \<noteq> []" by simp_all
  have s1: "\<not> startswith ?u1 ''file://''" by code_simp
  have s2: "\<not> startswith ''c.c'' ''file://''" by code_simp
  have s3: "\<not> startswith ''./c.c'' ''file://''" by code_simp
  have p1: "normpath ?H (path_join ?H ''/src'' (replace_backslash ?u1)) = ''/src/a/b.c''"
    by code_simp
  have p2: "normpath ?H (path_join ?H ''/src'' (replace_backslash ''c.c'')) = ''/src/c.c''"
    by code_simp
  have p3: "normpath ?H (path_join ?H (root_of ?cfg) ''c.c'') = ''/proj/c.c''"
    by code_simp
  have p4: "normpath ?H (path_join ?H (root_of ?cfg) (replace_backslash ''./c.c'')) = ''/proj/c.c''"
    by code_simp
  have f1: "isfile ?H ''/src/a/b.c''" and f2: "\<not> isfile ?H ''/src/c.c''"
    and f3: "isfile ?H ''/proj/c.c''" by code_simp+
  have r1: "resolve_artifact_location ?H ?art1 ?cfg = Some ''/src/a/b.c''"
    using base_token_resolution [OF u1 s1, of "''SRCROOT''" ?cfg ?bm "''/src''" ?H] tok f1
    unfolding p1 by blast
  have r2: "resolve_artifact_location ?H ?art2 ?cfg = Some ''/proj/c.c''"
    using base_token_resolution [OF u2 s2, of "''SRCROOT''" ?cfg ?bm "''/src''" ?H] tok2 f2 f3
    unfolding p2 p3 by blast
  have r3: "resolve_artifact_location ?H ?art3 ?cfg = Some ''/proj/c.c''"
    using base_token_resolution [OF u3 s3, of _ ?cfg _ _ ?H] tok3 f3
    unfolding p4 by blast
  show ?thesis using r1 r2 r3 by simp
qed

text \<open>
  Claim C2 as it is stated takes every token that is in the mapping. The code takes the
  mapped directory only for a token that is not empty: with the empty token mapped to
  \<open>/x\<close> and \<open>/x/a.c\<close> a regular file, the result is the join with the project root.
\<close>

theorem base_token_resolution_counterexample:
  "\<not> startswith ''a.c'' ''file://''
   \<and> [([]::string) \<mapsto> ''/x''] [] = Some ''/x''
   \<and> normpath (posix_host [(''/x/a.c'', ''int x;'')])
        (path_join (posix_host [(''/x/a.c'', ''int x;'')]) ''/x'' (replace_backslash ''a.c''))
      = ''/x/a.c''
   \<and> isfile (posix_host [(''/x/a.c'', ''int x;'')]) ''/x/a.c''
   \<and> resolve_artifact_location (posix_host [(''/x/a.c'', ''int x;'')])
        \<lparr>uri = Some ''a.c'', uriBaseId = Some []\<rparr>
        \<lparr>prefer_absolute_uri = None, uriBaseId_map = Some [[] \<mapsto> ''/x''],
         project_root = Some ''/proj''\<rparr>
      = Some ''/proj/a.c''
   \<and> ''/proj/a.c'' \<noteq> ''/x/a.c''"
  by code_simp

text \<open>
  Claim C3, as the code has it. For a URI that starts with \<open>file://\<close>, when the first
  tier has not returned (the configuration does not prefer absolute URIs, or the URI
  does not decode to a regular file) and neither the join with the base directory nor
  the join with the project root is a regular file, the result is what
  \<open>_file_from_file_uri\<close> gives, with no test that the path exists and whatever the
  preference is: for a URI that parses with the scheme \<open>file\<close> the percent-decoded path,
  its leading separator stripped only when the host is Windows and the path has the
  drive-letter pattern; and no result when \<open>urlparse\<close> raises.
\<close>

theorem file_uri_last_resort:
  assumes "uri art = Some u" and "startswith u ''file://''"
    and "\<not> (prefers_absolute cfg
           \<and> (\<exists>p. file_from_file_uri pf u = Some p \<and> p \<noteq> [] \<and> isfile pf p))"
    and "\<not> isfile pf (resolve_with_base pf u (uriBaseId art) cfg)"
    and "\<not> isfile pf (normpath pf (path_join pf (root_of cfg) u))"
  shows "(urlparse pf u = Inr parsed \<and> scheme parsed = ''file'' \<longrightarrow>
           resolve_artifact_location pf art cfg
             = Some (let d = unquote pf (path parsed)
                     in if os_nt pf \<and> drive_letter_pattern d then tl d else d))
       \<and> (urlparse pf u = Inl e \<longrightarrow> resolve_artifact_location pf art cfg = None)
       \<and> (urlparse pf u = Inr parsed \<and> scheme parsed \<noteq> ''file'' \<longrightarrow>
           resolve_artifact_location pf art cfg = None)"
proof -
  have t: "tier1 pf u cfg = None" using assms(3) by (simp add: tier1_None_iff)
  have r: "resolve_artifact_location pf art cfg = file_from_file_uri pf u"
    using resolve_after_tier1 [OF assms(1) startswith_nonempty [OF assms(2)] t] assms(2,4,5)
    by simp
  show ?thesis
    by (simp add: r file_from_file_uri_def Let_def)
qed

theorem file_uri_last_resort_witness:
  "\<not> isfile (posix_host []) ''/tmp/a b.c''
   \<and> resolve_artifact_location (posix_host [])
        \<lparr>uri = Some ''file:///tmp/a%20b.c'', uriBaseId = None\<rparr>
        \<lparr>prefer_absolute_uri = Some True, uriBaseId_map = None, project_root = Some ''/proj''\<rparr>
      = Some ''/tmp/a b.c''
   \<and> resolve_artifact_location (posix_host [(''/tmp/a b.c'', ''int x;'')])
        \<lparr>uri = Some ''file:///tmp/a%20b.c'', uriBaseId = None\<rparr>
        \<lparr>prefer_absolute_uri = Some False, uriBaseId_map = None, project_root = Some ''/proj''\<rparr>
      = Some ''/tmp/a b.c''
   \<and> resolve_artifact_location (posix_host [])
        \<lparr>uri = Some ''file:///D:/x.c'', uriBaseId = None\<rparr>
        \<lparr>prefer_absolute_uri = Some True, uriBaseId_map = None, project_root = Some ''/proj''\<rparr>
      = Some ''/D:/x.c''
   \<and> resolve_artifact_location (posix_host [])
        \<lparr>uri = Some ''file://[::1/x'', uriBaseId = None\<rparr>
        \<lparr>prefer_absolute_uri = Some True, uriBaseId_map = None, project_root = Some ''/proj''\<rparr>
      = None
   \<and> (\<forall>join norm.
        resolve_artifact_location
          \<lparr>os_nt = True, isfile = (\<lambda>p. False), path_join = join, normpath = norm,
           urlparse = url_parse, unquote = percent_decode,
           read_bytes = (\<lambda>p. Inl FileNotFoundError), decode_ignore = decode_text\<rparr>
          \<lparr>uri = Some ''file:///D:/x.c'', uriBaseId = None\<rparr>
          \<lparr>prefer_absolute_uri = Some False, uriBaseId_map = None, project_root = None\<rparr>
        = Some ''D:/x.c'')"
proof -
  let ?H0 = "posix_host []"
  let ?H1 = "posix_host [(''/tmp/a b.c'', ''int x;'')]"
  let ?u = "''file:///tmp/a%20b.c''"
  let ?art = "\<lparr>uri = Some ?u, uriBaseId = None\<rparr>"
  let ?cT = "\<lparr>prefer_absolute_uri = Some True, uriBaseId_map = None, project_root = Some ''/proj''\<rparr>"
  let ?cF = "\<lparr>prefer_absolute_uri = Some False, uriBaseId_map = None, project_root = Some ''/proj''\<rparr>"
  let ?parsed = "\<lparr>scheme = ''file'', path = ''/tmp/a%20b.c''\<rparr>"
  have a1: "uri ?art = Some ?u" by simp
  have a2: "startswith ?u ''file://''" by code_simp
  have d0: "file_from_file_uri ?H0 ?u = Some ''/tmp/a b.c''" by code_simp
  have n0: "\<not> isfile ?H0 ''/tmp/a b.c''" by code_simp
  have a3: "\<not> (prefers_absolute ?cT
           \<and> (\<exists>p. file_from_file_uri ?H0 ?u = Some p \<and> p \<noteq> [] \<and> isfile ?H0 p))"
    using n0 by (simp add: d0)
  have b3: "\<not> (prefers_absolute ?cF
           \<and> (\<exists>p. file_from_file_uri ?H1 ?u = Some p \<and> p \<noteq> [] \<and> isfile ?H1 p))"
    by (simp add: prefers_absolute_def)
  have a4: "\<not> isfile ?H0 (resolve_with_base ?H0 ?u (uriBaseId ?art) ?cT)" by code_simp
  have a5: "\<not> isfile ?H0 (normpath ?H0 (path_join ?H0 (root_of ?cT) ?u))" by code_simp
  have b4: "\<not> isfile ?H1 (resolve_with_base ?H1 ?u (uriBaseId ?art) ?cF)" by code_simp
  have b5: "\<not> isfile ?H1 (normpath ?H1 (path_join ?H1 (root_of ?cF) ?u))" by code_simp
  have p0: "urlparse ?H0 ?u = Inr ?parsed \<and> scheme ?parsed = ''file''" by code_simp
  have p1: "urlparse ?H1 ?u = Inr ?parsed \<and> scheme ?parsed = ''file''" by code_simp
  have v0: "(let d = unquote ?H0 (path ?parsed)
             in if os_nt ?H0 \<and> drive_letter_pattern d then tl d else d) = ''/tmp/a b.c''"
    by code_simp
  have v1: "(let d = unquote ?H1 (path ?parsed)
             in if os_nt ?H1 \<and> drive_letter_pattern d then tl d else d) = ''/tmp/a b.c''"
    by code_simp
  have r0: "resolve_artifact_location ?H0 ?art ?cT = Some ''/tmp/a b.c''"
    using file_uri_last_resort [OF a1 a2 a3 a4 a5, of ?parsed] p0 unfolding v0 by blast
  have r1: "resolve_artifact_location ?H1 ?art ?cF = Some ''/tmp/a b.c''"
    using file_uri_last_resort [OF a1 a2 b3 b4 b5, of ?parsed] p1 unfolding v1 by blast
  let ?ud = "''file:///D:/x.c''"
  let ?artd = "\<lparr>uri = Some ?ud, uriBaseId = None\<rparr>"
  let ?pd = "\<lparr>scheme = ''file'', path = ''/D:/x.c''\<rparr>"
  have c1: "uri ?artd = Some ?ud" by simp
  have c2: "startswith ?ud ''file://''" by code_simp
  have cd: "file_from_file_uri ?H0 ?ud = Some ''/D:/x.c''" by code_simp
  have cn: "\<not> isfile ?H0 ''/D:/x.c''" by code_simp
  have c3: "\<not> (prefers_absolute ?cT
           \<and> (\<exists>p. file_from_file_uri ?H0 ?ud = Some p \<and> p \<noteq> [] \<and> isfile ?H0 p))"
    using cn by (simp add: cd)
  have c4: "\<not> isfile ?H0 (resolve_with_base ?H0 ?ud (uriBaseId ?artd) ?cT)" by code_simp
  have c5: "\<not> isfile ?H0 (normpath ?H0 (path_join ?H0 (root_of ?cT) ?ud))" by code_simp
  have cp: "urlparse ?H0 ?ud = Inr ?pd \<and> scheme ?pd = ''file''" by code_simp
  have cv: "(let d = unquote ?H0 (path ?pd)
             in if os_nt ?H0 \<and> drive_letter_pattern d then tl d else d) = ''/D:/x.c''"
    by code_simp
  have r2: "resolve_artifact_location ?H0 ?artd ?cT = Some ''/D:/x.c''"
    using file_uri_last_resort [OF c1 c2 c3 c4 c5, of ?pd] cp unfolding cv by blast
  let ?ub = "''file://[::1/x''"
  let ?artb = "\<lparr>uri = Some ?ub, uriBaseId = None\<rparr>"
  have e1: "uri ?artb = Some ?ub" by simp
  have e2: "startswith ?ub ''file://''" by code_simp
  have ed: "file_from_file_uri ?H0 ?ub = None" by code_simp
  have e3: "\<not> (prefers_absolute ?cT
           \<and> (\<exists>p. file_from_file_uri ?H0 ?ub = Some p \<and> p \<noteq> [] \<and> isfile ?H0 p))"
    by (simp add: ed)
  have e4: "\<not> isfile ?H0 (resolve_with_base ?H0 ?ub (uriBaseId ?artb) ?cT)" by code_simp
  have e5: "\<not> isfile ?H0 (normpath ?H0 (path_join ?H0 (root_of ?cT) ?ub))" by code_simp
  have ep: "urlparse ?H0 ?ub = Inl ValueError" by code_simp
  have r3: "resolve_artifact_location ?H0 ?artb ?cT = None"
    using file_uri_last_resort [OF e1 e2 e3 e4 e5, of _ ValueError] ep by blast
  have nt: "resolve_artifact_location
          \<lparr>os_nt = True, isfile = (\<lambda>p. False), path_join = join, normpath = norm,
           urlparse = url_parse, unquote = percent_decode,
           read_bytes = (\<lambda>p. Inl FileNotFoundError), decode_ignore = decode_text\<rparr>
          \<lparr>uri = Some ''file:///D:/x.c'', uriBaseId = None\<rparr>
          \<lparr>prefer_absolute_uri = Some False, uriBaseId_map = None, project_root = None\<rparr>
        = Some ''D:/x.c''" for join norm
  proof -
    let ?W = "\<lparr>os_nt = True, isfile = (\<lambda>p. False), path_join = join, normpath = norm,
           urlparse = url_parse, unquote = percent_decode,
           read_bytes = (\<lambda>p. Inl FileNotFoundError), decode_ignore = decode_text\<rparr>"
    let ?wcfg = "\<lparr>prefer_absolute_uri = Some False, uriBaseId_map = None, project_root = None\<rparr>"
    have up: "url_parse ?ud = Inr ?pd" by code_simp
    have pd: "percent_decode ''/D:/x.c'' = ''/D:/x.c''" by code_simp
    have dl: "drive_letter_pattern ''/D:/x.c''" by code_simp
    have w3: "\<not> (prefers_absolute ?wcfg
           \<and> (\<exists>p. file_from_file_uri ?W ?ud = Some p \<and> p \<noteq> [] \<and> isfile ?W p))"
      by simp
    have w4: "\<not> isfile ?W (resolve_with_base ?W ?ud (uriBaseId ?artd) ?wcfg)" by simp
    have w5: "\<not> isfile ?W (normpath ?W (path_join ?W (root_of ?wcfg) ?ud))" by simp
    have wp: "urlparse ?W ?ud = Inr ?pd \<and> scheme ?pd = ''file''" by (simp add: up)
    have wv: "(let d = unquote ?W (path ?pd)
             in if os_nt ?W \<and> drive_letter_pattern d then tl d else d) = ''D:/x.c''"
      by (simp add: pd dl)
    show ?thesis
      using file_uri_last_resort [OF c1 c2 w3 w4 w5, of ?pd] wp unfolding wv by blast
  qed
  show ?thesis using r0 r1 r2 r3 nt n0 by simp
qed

text \<open>
  Claim C3 as it is stated returns the path decoded by the rule of the first tier, which
  strips the leading separator on every host. On a POSIX host, with no regular file at
  all, \<open>file:///D:/x.c\<close> gives \<open>/D:/x.c\<close> and not the stripped path \<open>D:/x.c\<close>; and
  \<open>file://[::1/x\<close>, on which \<open>urlparse\<close> raises, gives no path at all.
\<close>

theorem file_uri_last_resort_counterexample:
  "startswith ''file:///D:/x.c'' ''file://''
   \<and> tier1 (posix_host []) ''file:///D:/x.c''
        \<lparr>prefer_absolute_uri = Some True, uriBaseId_map = None, project_root = Some ''/proj''\<rparr>
      = None
   \<and> \<not> isfile (posix_host [])
        (resolve_with_base (posix_host []) ''file:///D:/x.c'' None
          \<lparr>prefer_absolute_uri = Some True, uriBaseId_map = None, project_root = Some ''/proj''\<rparr>)
   \<and> \<not> isfile (posix_host [])
        (normpath (posix_host []) (path_join (posix_host []) ''/proj'' ''file:///D:/x.c''))
   \<and> urlparse (posix_host []) ''file:///D:/x.c'' = Inr \<lparr>scheme = ''file'', path = ''/D:/x.c''\<rparr>
   \<and> decoded_as_specified (posix_host []) \<lparr>scheme = ''file'', path = ''/D:/x.c''\<rparr> = ''D:/x.c''
   \<and> resolve_artifact_location (posix_host [])
        \<lparr>uri = Some ''file:///D:/x.c'', uriBaseId = None\<rparr>
        \<lparr>prefer_absolute_uri = Some True, uriBaseId_map = None, project_root = Some ''/proj''\<rparr>
      = Some ''/D:/x.c''
   \<and> ''/D:/x.c'' \<noteq> ''D:/x.c''
   \<and> startswith ''file://[::1/x'' ''file://''
   \<and> urlparse (posix_host []) ''file://[::1/x'' = Inl ValueError
   \<and> resolve_artifact_location (posix_host [])
        \<lparr>uri = Some ''file://[::1/x'', uriBaseId = None\<rparr>
        \<lparr>prefer_absolute_uri = Some True, uriBaseId_map = None, project_root = Some ''/proj''\<rparr>
      = None"
  by code_simp

lemma dedup_from_insert:
  "dedup_from (insert p seen) ps = dedup_from seen (filter (\<lambda>x. x \<noteq> p) ps)"
proof (induction ps arbitrary: seen)
  case Nil
  show ?case by simp
next
  case (Cons x ps)
  show ?case
  proof (cases "x = p")
    case True
    then show ?thesis using Cons [of seen] by simp
  next
    case False
    then show ?thesis
      using Cons [of seen] Cons [of "insert x seen"] by (simp add: insert_commute)
  qed
qed

lemma set_dedup_from: "set (dedup_from seen ps) = set ps - seen"
  by (induction ps arbitrary: seen) auto

lemma distinct_dedup_from: "distinct (dedup_from seen ps)"
  by (induction ps arbitrary: seen) (auto simp: set_dedup_from)

lemma remdups_snoc: "remdups (xs @ [p]) = filter (\<lambda>x. x \<noteq> p) (remdups xs) @ [p]"
  by (induction xs) auto

lemma dedup_from_first_occurrences:
  "dedup_from seen ps = rev (remdups (rev (filter (\<lambda>x. x \<notin> seen) ps)))"
proof (induction ps arbitrary: seen)
  case Nil
  show ?case by simp
next
  case (Cons p ps)
  show ?case
  proof (cases "p \<in> seen")
    case True
    then show ?thesis using Cons [of seen] by simp
  next
    case False
    have f: "filter (\<lambda>x. x \<notin> insert p seen) ps
        = filter (\<lambda>x. x \<noteq> p) (filter (\<lambda>x. x \<notin> seen) ps)"
      by (induction ps) auto
    have "dedup_from seen (p # ps) = p # dedup_from (insert p seen) ps"
      using False by simp
    also have "\<dots> = p # rev (remdups (rev (filter (\<lambda>x. x \<notin> insert p seen) ps)))"
      using Cons [of "insert p seen"] by simp
    also have "\<dots> = rev (remdups (rev (filter (\<lambda>x. x \<notin> seen) ps) @ [p]))"
      by (simp only: f remdups_snoc rev_filter remdups_filter rev_append rev.simps append.simps)
    finally show ?thesis using False by simp
  qed
qed

text \<open>
  A location raises exactly when its \<open>physicalLocation\<close> is null; the loop raises exactly
  when one of its locations does, and otherwise collects what the locations give.
\<close>

lemma location_paths_raises_iff:
  "(\<exists>e. location_paths pf cfg loc = Inl e) \<longleftrightarrow>
     (\<exists>l. loc = Some l \<and> physicalLocation l = Null)"
  by (auto simp: location_paths_def split: option.splits json_key.splits)

lemma location_paths_null:
  "location_paths pf cfg (Some \<lparr>physicalLocation = Null\<rparr>) = Inl AttributeError"
  by (simp add: location_paths_def)

lemma collect_paths_raises:
  assumes "Some \<lparr>physicalLocation = Null\<rparr> \<in> set locs"
  shows "collect_paths pf cfg locs = Inl AttributeError"
  using assms
proof (induction locs)
  case Nil
  then show ?case by simp
next
  case (Cons loc locs)
  show ?case
  proof (cases "location_paths pf cfg loc")
    case (Inl e)
    then have "e = AttributeError"
      by (auto simp: location_paths_def split: option.splits json_key.splits if_splits)
    then show ?thesis using Inl by simp
  next
    case (Inr ps)
    then have "loc \<noteq> Some \<lparr>physicalLocation = Null\<rparr>"
      by (auto simp: location_paths_null)
    then have "collect_paths pf cfg locs = Inl AttributeError"
      using Cons by simp
    then show ?thesis using Inr by simp
  qed
qed

lemma collect_paths_returns:
  assumes "\<forall>loc\<in>set locs. \<exists>ps. location_paths pf cfg loc = Inr ps"
  shows "collect_paths pf cfg locs
    = Inr (concat (map (\<lambda>loc. case location_paths pf cfg loc of Inr ps \<Rightarrow> ps | Inl e \<Rightarrow> []) locs))"
  using assms by (induction locs) auto

text \<open>
  When no location has a null \<open>physicalLocation\<close>, nothing is raised: every location
  adds to the path list what its own resolution gives
  (nothing when it has no artifact location or no URI or resolves to no path or to the
  empty path), and the result is that list without repetitions, every path at the place
  of its first occurrence.
\<close>

lemma extract_result_files_first_seen:
  assumes "\<forall>loc\<in>set locs. \<exists>ps. location_paths pf cfg loc = Inr ps"
  shows "extract_result_files pf \<lparr>locations = Some locs\<rparr> cfg
      = Inr (dedup_from {}
          (concat (map (\<lambda>loc. case location_paths pf cfg loc of Inr ps \<Rightarrow> ps | Inl e \<Rightarrow> [])
            locs)))"
  using collect_paths_returns [OF assms] by (simp add: extract_result_files_def)

lemma extract_result_files_no_locations:
  "extract_result_files pf \<lparr>locations = None\<rparr> cfg = Inr []"
  by (simp add: extract_result_files_def)

lemma dedup_head_first:
  "dedup_from {} (p # ps) = p # dedup_from {} (filter (\<lambda>x. x \<noteq> p) ps)"
  by (simp add: dedup_from_insert)

lemma dedup_first_seen: "dedup_from {} ps = rev (remdups (rev ps))"
  by (simp add: dedup_from_first_occurrences)

lemma location_paths_omits:
  "location_paths pf cfg None = Inr []"
  "location_paths pf cfg (Some \<lparr>physicalLocation = Absent\<rparr>) = Inr []"
  "location_paths pf cfg (Some \<lparr>physicalLocation = Present \<lparr>artifactLocation = None\<rparr>\<rparr>) = Inr []"
  "uri a = None \<Longrightarrow>
     location_paths pf cfg (Some \<lparr>physicalLocation = Present \<lparr>artifactLocation = Some a\<rparr>\<rparr>)
       = Inr []"
  "location_paths pf cfg (Some \<lparr>physicalLocation = Present \<lparr>artifactLocation = Some a\<rparr>\<rparr>)
     = Inr (case resolve_artifact_location pf a cfg of
              None \<Rightarrow> [] | Some p \<Rightarrow> if p = [] then [] else [p])"
  by (simp_all add: location_paths_def resolve_artifact_location_def split: option.splits)

lemma extract_result_files_example:
  "extract_result_files (posix_host [(''/proj/a.c'', ''int a;''), (''/proj/b.c'', ''int b;'')])
      \<lparr>locations = Some
         [Some \<lparr>physicalLocation = Present \<lparr>artifactLocation = Some \<lparr>uri = Some ''b.c'', uriBaseId = None\<rparr>\<rparr>\<rparr>,
          Some \<lparr>physicalLocation = Present \<lparr>artifactLocation = Some \<lparr>uri = None, uriBaseId = None\<rparr>\<rparr>\<rparr>,
          Some \<lparr>physicalLocation = Present \<lparr>artifactLocation = Some \<lparr>uri = Some ''file:///proj/a.c'', uriBaseId = None\<rparr>\<rparr>\<rparr>,
          None,
          Some \<lparr>physicalLocation = Absent\<rparr>,
          Some \<lparr>physicalLocation = Present \<lparr>artifactLocation = Some \<lparr>uri = Some ''./b.c'', uriBaseId = None\<rparr>\<rparr>\<rparr>]\<rparr>
      \<lparr>prefer_absolute_uri = None, uriBaseId_map = None, project_root = Some ''/proj''\<rparr>
     = Inr [''/proj/b.c'', ''/proj/a.c'']"
  by code_simp

text \<open>
  Claim C7 says that, for every result, a location without a usable reference is left
  out and nothing is raised. The code reads a missing location as an empty one
  (\<open>loc or {}\<close>), a missing or null location list as an empty list, and a null artifact
  location as none (\<open>if not art\<close>), but it has no such guard for \<open>physicalLocation\<close>: on a
  location whose \<open>physicalLocation\<close> is null, \<open>phy.get\<close> raises \<open>AttributeError\<close>, and
  \<open>extract_result_files\<close> raises it whatever the other locations are.
\<close>

theorem extract_result_files_null_physical_location:
  "extract_result_files pf
      \<lparr>locations = Some (before @ [Some \<lparr>physicalLocation = Null\<rparr>] @ after)\<rparr> cfg
     = Inl AttributeError"
proof -
  have "collect_paths pf cfg (before @ [Some \<lparr>physicalLocation = Null\<rparr>] @ after)
      = Inl AttributeError"
    by (rule collect_paths_raises) simp
  then show ?thesis by (simp add: extract_result_files_def)
qed

theorem extract_result_files_null_physical_location_witness:
  "extract_result_files (posix_host [(''/proj/a.c'', ''int a;'')])
      \<lparr>locations = Some
         [Some \<lparr>physicalLocation = Present \<lparr>artifactLocation = Some \<lparr>uri = Some ''a.c'', uriBaseId = None\<rparr>\<rparr>\<rparr>,
          Some \<lparr>physicalLocation = Null\<rparr>,
          Some \<lparr>physicalLocation = Present \<lparr>artifactLocation = Some \<lparr>uri = Some ''a.c'', uriBaseId = None\<rparr>\<rparr>\<rparr>]\<rparr>
      \<lparr>prefer_absolute_uri = None, uriBaseId_map = None, project_root = Some ''/proj''\<rparr>
     = Inl AttributeError
   \<and> extract_result_files (posix_host [(''/proj/a.c'', ''int a;'')])
      \<lparr>locations = Some
         [Some \<lparr>physicalLocation = Present \<lparr>artifactLocation = Some \<lparr>uri = Some ''a.c'', uriBaseId = None\<rparr>\<rparr>\<rparr>,
          Some \<lparr>physicalLocation = Absent\<rparr>,
          None,
          Some \<lparr>physicalLocation = Present \<lparr>artifactLocation = None\<rparr>\<rparr>,
          Some \<lparr>physicalLocation = Present \<lparr>artifactLocation = Some \<lparr>uri = Some ''a.c'', uriBaseId = None\<rparr>\<rparr>\<rparr>]\<rparr>
      \<lparr>prefer_absolute_uri = None, uriBaseId_map = None, project_root = Some ''/proj''\<rparr>
     = Inr [''/proj/a.c'']"
proof -
  let ?H = "posix_host [(''/proj/a.c'', ''int a;'')]"
  let ?cfg = "\<lparr>prefer_absolute_uri = None, uriBaseId_map = None, project_root = Some ''/proj''\<rparr>"
  let ?good = "Some \<lparr>physicalLocation = Present \<lparr>artifactLocation = Some \<lparr>uri = Some ''a.c'', uriBaseId = None\<rparr>\<rparr>\<rparr>"
  have a: "extract_result_files ?H
      \<lparr>locations = Some ([?good] @ [Some \<lparr>physicalLocation = Null\<rparr>] @ [?good])\<rparr> ?cfg
     = Inl AttributeError"
    by (rule extract_result_files_null_physical_location)
  have b: "extract_result_files ?H
      \<lparr>locations = Some
         [?good, Some \<lparr>physicalLocation = Absent\<rparr>, None,
          Some \<lparr>physicalLocation = Present \<lparr>artifactLocation = None\<rparr>\<rparr>, ?good]\<rparr> ?cfg
     = Inr [''/proj/a.c'']"
    by code_simp
  show ?thesis using a b by simp
qed

lemma utf8_ignore_ascii:
  assumes "\<forall>b\<in>set bs. (of_char b :: nat) < 128"
  shows "utf8_ignore bs = bs"
  using assms by (induction bs) simp_all

lemma utf8_ignore_append_ascii:
  assumes "\<forall>b\<in>set xs. (of_char b :: nat) < 128"
  shows "utf8_ignore (xs @ ys) = xs @ utf8_ignore ys"
  using assms by (induction xs) simp_all

lemma utf8_ignore_drops_invalid_byte:
  assumes "\<forall>b\<in>set xs. (of_char b :: nat) < 128" and "\<forall>b\<in>set ys. (of_char b :: nat) < 128"
  shows "utf8_ignore (xs @ [CHR 0xFF] @ ys) = xs @ ys"
proof -
  have "utf8_ignore ([CHR 0xFF] @ ys) = utf8_ignore ys" by simp
  then show ?thesis using assms by (simp add: utf8_ignore_append_ascii utf8_ignore_ascii)
qed

lemma translate_newlines_id:
  assumes "CHR 0x0D \<notin> set s"
  shows "translate_newlines s = s"
  using assms by (induction s) auto

lemma cut_nonneg:
  "0 \<le> m \<Longrightarrow> (if m < int (length s) then py_slice_to s m else s) = take (nat m) s"
  by (simp add: py_slice_to_nonneg)

text \<open>
  Claim C8, as the code has it. An exception of opening or reading the file (a missing
  file, no permission) and an encoding that is not known give the empty string. A byte
  that does not decode raises nothing under \<open>errors="ignore"\<close>: it is left out and the
  rest of the text is returned. A text that was read is returned whole when it has at
  most \<open>max_chars\<close> characters and as its slice \<open>s[:max_chars]\<close> otherwise; for
  \<open>max_chars\<close> that is not negative this is the text cut to its first \<open>max_chars\<close>
  characters, so the result has at most \<open>max_chars\<close> characters.
\<close>

theorem safe_read_text_bounded:
  "(read_bytes pf fname = Inl e \<longrightarrow> safe_read_text pf fname enc max_chars = [])
   \<and> (read_bytes pf fname = Inr bs \<and> decode_ignore pf enc bs = Inl e \<longrightarrow>
        safe_read_text pf fname enc max_chars = [])
   \<and> (read_bytes pf fname = Inr bs \<and> decode_ignore pf enc bs = Inr s \<longrightarrow>
        safe_read_text pf fname enc max_chars
          = (if max_chars < int (length s) then py_slice_to s max_chars else s))
   \<and> (read_bytes pf fname = Inr bs \<and> decode_ignore pf enc bs = Inr s \<and> 0 \<le> max_chars \<longrightarrow>
        safe_read_text pf fname enc max_chars = take (nat max_chars) s)
   \<and> (0 \<le> max_chars \<longrightarrow> int (length (safe_read_text pf fname enc max_chars)) \<le> max_chars)
   \<and> ((\<forall>b\<in>set xs. (of_char b :: nat) < 128 \<and> b \<noteq> CHR 0x0D)
        \<and> (\<forall>b\<in>set ys. (of_char b :: nat) < 128 \<and> b \<noteq> CHR 0x0D)
        \<and> map_of files fname = Some (xs @ [CHR 0xFF] @ ys) \<and> 0 \<le> max_chars \<longrightarrow>
        safe_read_text (posix_host files) fname ''utf-8'' max_chars
          = take (nat max_chars) (xs @ ys))"
proof (intro conjI impI)
  assume "read_bytes pf fname = Inl e"
  then show "safe_read_text pf fname enc max_chars = []" by (simp add: safe_read_text_def)
next
  assume "read_bytes pf fname = Inr bs \<and> decode_ignore pf enc bs = Inl e"
  then show "safe_read_text pf fname enc max_chars = []" by (simp add: safe_read_text_def)
next
  assume "read_bytes pf fname = Inr bs \<and> decode_ignore pf enc bs = Inr s"
  then show "safe_read_text pf fname enc max_chars
          = (if max_chars < int (length s) then py_slice_to s max_chars else s)"
    by (simp add: safe_read_text_def)
next
  assume "read_bytes pf fname = Inr bs \<and> decode_ignore pf enc bs = Inr s \<and> 0 \<le> max_chars"
  then show "safe_read_text pf fname enc max_chars = take (nat max_chars) s"
    by (simp add: safe_read_text_def py_slice_to_nonneg)
next
  assume m: "0 \<le> max_chars"
  show "int (length (safe_read_text pf fname enc max_chars)) \<le> max_chars"
    using m
    by (auto simp: safe_read_text_def py_slice_to_nonneg split: sum.splits)
next
  assume a: "(\<forall>b\<in>set xs. (of_char b :: nat) < 128 \<and> b \<noteq> CHR 0x0D)
        \<and> (\<forall>b\<in>set ys. (of_char b :: nat) < 128 \<and> b \<noteq> CHR 0x0D)
        \<and> map_of files fname = Some (xs @ [CHR 0xFF] @ ys) \<and> 0 \<le> max_chars"
  then have u: "utf8_ignore (xs @ [CHR 0xFF] @ ys) = xs @ ys"
    by (intro utf8_ignore_drops_invalid_byte) blast+
  have "CHR 0x0D \<notin> set (xs @ ys)" using a by auto
  then have t: "translate_newlines (xs @ ys) = xs @ ys" by (rule translate_newlines_id)
  have r: "read_bytes (posix_host files) fname = Inr (xs @ [CHR 0xFF] @ ys)"
    using a by (simp add: posix_host_def)
  have d: "decode_ignore (posix_host files) ''utf-8'' (xs @ [CHR 0xFF] @ ys) = Inr (xs @ ys)"
    using u t by (simp add: posix_host_def decode_text_def)
  show "safe_read_text (posix_host files) fname ''utf-8'' max_chars
          = take (nat max_chars) (xs @ ys)"
  proof -
    have m: "0 \<le> max_chars" using a by blast
    have "safe_read_text (posix_host files) fname ''utf-8'' max_chars
        = (if max_chars < int (length (xs @ ys)) then py_slice_to (xs @ ys) max_chars
           else xs @ ys)"
      by (simp only: safe_read_text_def r d sum.case)
    also have "\<dots> = take (nat max_chars) (xs @ ys)"
      by (rule cut_nonneg [OF m])
    finally show ?thesis .
  qed
qed

theorem safe_read_text_bounded_witness:
  "safe_read_text (posix_host [(''/proj/a.c'', ''int a;'')]) ''/proj/missing.c'' ''utf-8'' 4 = []
   \<and> safe_read_text (posix_host [(''/proj/a.c'', ''int a;'')]) ''/proj/a.c'' ''klingon'' 4 = []
   \<and> safe_read_text (posix_host [(''/proj/a.c'', ''int a;'')]) ''/proj/a.c'' ''utf-8'' 4 = ''int ''
   \<and> int (length (safe_read_text (posix_host [(''/proj/a.c'', ''int a;'')]) ''/proj/a.c'' ''utf-8'' 4)) \<le> 4
   \<and> safe_read_text (posix_host [(''/proj/b.c'', ''ab'' @ [CHR 0xFF] @ ''cd'')]) ''/proj/b.c'' ''utf-8'' 10
      = ''abcd''"
proof -
  let ?H = "posix_host [(''/proj/a.c'', ''int a;'')]"
  let ?G = "[(''/proj/b.c'', ''ab'' @ [CHR 0xFF] @ ''cd'')]"
  have r1: "read_bytes ?H ''/proj/missing.c'' = Inl FileNotFoundError" by code_simp
  have r2: "read_bytes ?H ''/proj/a.c'' = Inr ''int a;''" by code_simp
  have d2: "decode_ignore ?H ''utf-8'' ''int a;'' = Inr ''int a;''" by code_simp
  have d3: "decode_ignore ?H ''klingon'' ''int a;'' = Inl LookupError" by code_simp
  have z: "(0::int) \<le> 4" "(0::int) \<le> 10" by simp_all
  have w1: "safe_read_text ?H ''/proj/missing.c'' ''utf-8'' 4 = []"
    using safe_read_text_bounded
      [where pf = ?H and fname = "''/proj/missing.c''" and e = FileNotFoundError
        and enc = "''utf-8''" and max_chars = 4] r1
    by blast
  have w2: "safe_read_text ?H ''/proj/a.c'' ''klingon'' 4 = []"
    using safe_read_text_bounded
      [where pf = ?H and fname = "''/proj/a.c''" and e = LookupError and bs = "''int a;''"
        and enc = "''klingon''" and max_chars = 4] r2 d3
    by blast
  have w3: "safe_read_text ?H ''/proj/a.c'' ''utf-8'' 4 = take (nat 4) ''int a;''"
    and w4: "int (length (safe_read_text ?H ''/proj/a.c'' ''utf-8'' 4)) \<le> 4"
    using safe_read_text_bounded
      [where pf = ?H and fname = "''/proj/a.c''" and bs = "''int a;''" and s = "''int a;''"
        and enc = "''utf-8''" and max_chars = 4] r2 d2 z(1)
    by blast+
  have g1: "\<forall>b\<in>set ''ab''. (of_char b :: nat) < 128 \<and> b \<noteq> CHR 0x0D" by code_simp
  have g2: "\<forall>b\<in>set ''cd''. (of_char b :: nat) < 128 \<and> b \<noteq> CHR 0x0D" by code_simp
  have g3: "map_of ?G ''/proj/b.c'' = Some (''ab'' @ [CHR 0xFF] @ ''cd'')" by simp
  have w5: "safe_read_text (posix_host ?G) ''/proj/b.c'' ''utf-8'' 10 = take (nat 10) (''ab'' @ ''cd'')"
    using safe_read_text_bounded
      [where xs = "''ab''" and ys = "''cd''" and files = ?G and fname = "''/proj/b.c''"
        and max_chars = 10] g1 g2 g3 z(2)
    by blast
  have t: "take (nat 4) ''int a;'' = ''int ''" by code_simp
  have t5: "take (nat 10) (''ab'' @ ''cd'') = ''abcd''" by code_simp
  show ?thesis using w1 w2 w3 w4 w5 t t5 by simp
qed

text \<open>
  Claim C8 as it is stated fails twice. For a negative \<open>max_chars\<close> the slice drops
  characters from the end: with \<open>-1\<close> a text of three characters comes back with two.
  And a file with a byte that does not decode does not give the empty string: the byte
  is left out and the rest of the text comes back.
\<close>

theorem safe_read_text_bounded_counterexample:
  "read_bytes (posix_host [(''/proj/a.txt'', ''abc'')]) ''/proj/a.txt'' = Inr ''abc''
   \<and> safe_read_text (posix_host [(''/proj/a.txt'', ''abc'')]) ''/proj/a.txt'' ''utf-8'' (- 1) = ''ab''
   \<and> \<not> int (length (safe_read_text (posix_host [(''/proj/a.txt'', ''abc'')])
          ''/proj/a.txt'' ''utf-8'' (- 1))) \<le> - 1
   \<and> safe_read_text (posix_host [(''/proj/b.txt'', [CHR ''a'', CHR ''b'', CHR 0xFF, CHR ''c'', CHR ''d''])])
        ''/proj/b.txt'' ''utf-8'' 120000 = ''abcd''
   \<and> ''abcd'' \<noteq> []"
proof -
  have a: "safe_read_text (posix_host [(''/proj/a.txt'', ''abc'')]) ''/proj/a.txt'' ''utf-8'' (- 1) = ''ab''"
    by code_simp
  have b: "read_bytes (posix_host [(''/proj/a.txt'', ''abc'')]) ''/proj/a.txt'' = Inr ''abc''"
    by code_simp
  have c: "safe_read_text (posix_host [(''/proj/b.txt'', [CHR ''a'', CHR ''b'', CHR 0xFF, CHR ''c'', CHR ''d''])])
        ''/proj/b.txt'' ''utf-8'' 120000 = ''abcd''"
    by code_simp
  show ?thesis using a b c by simp
qed

section \<open>Properties of the knowledge-base lookup\<close>

lemma findall_from_split:
  "findall_from cur s = filter (\<lambda>t. t \<noteq> []) (split_from (\<lambda>c. \<not> token_char c) cur s)"
  by (induction s arbitrary: cur) simp_all

lemma split_from_pieces:
  assumes "\<forall>c\<in>set cur. \<not> d c"
  shows "t \<in> set (split_from d cur s) \<longleftrightarrow>
    (\<forall>c\<in>set t. \<not> d c)
    \<and> (\<exists>pre post. rev cur @ s = pre @ t @ post
          \<and> (pre = [] \<or> d (last pre)) \<and> (post = [] \<or> d (hd post)))"
  using assms
proof (induction s arbitrary: cur)
  case Nil
  show ?case
  proof
    assume "t \<in> set (split_from d cur [])"
    then have tr: "t = rev cur" by simp
    have f: "\<forall>c\<in>set t. \<not> d c" using Nil tr by simp
    have ex: "\<exists>pre post. rev cur @ [] = pre @ t @ post
          \<and> (pre = [] \<or> d (last pre)) \<and> (post = [] \<or> d (hd post))"
      by (rule exI [of _ "[]"], rule exI [of _ "[]"]) (simp add: tr)
    show "(\<forall>c\<in>set t. \<not> d c)
      \<and> (\<exists>pre post. rev cur @ [] = pre @ t @ post
          \<and> (pre = [] \<or> d (last pre)) \<and> (post = [] \<or> d (hd post)))"
      by (intro conjI) (rule f, rule ex)
  next
    assume a: "(\<forall>c\<in>set t. \<not> d c)
      \<and> (\<exists>pre post. rev cur @ [] = pre @ t @ post
          \<and> (pre = [] \<or> d (last pre)) \<and> (post = [] \<or> d (hd post)))"
    then obtain pre post where e: "rev cur = pre @ t @ post"
      and p: "pre = [] \<or> d (last pre)" and q: "post = [] \<or> d (hd post)" by auto
    have "pre = []"
    proof (rule ccontr)
      assume "pre \<noteq> []"
      then have "last pre \<in> set (rev cur)" using e by simp
      then show False using p \<open>pre \<noteq> []\<close> Nil by simp
    qed
    moreover have "post = []"
    proof (rule ccontr)
      assume "post \<noteq> []"
      then have "hd post \<in> set (rev cur)" using e by simp
      then show False using q \<open>post \<noteq> []\<close> Nil by simp
    qed
    ultimately show "t \<in> set (split_from d cur [])" using e by simp
  qed
next
  case (Cons c cs)
  show ?case
  proof (cases "d c")
    case False
    have "\<forall>x\<in>set (c # cur). \<not> d x" using False Cons.prems by simp
    from Cons.IH [OF this] show ?thesis using False by simp
  next
    case True
    have ih: "t \<in> set (split_from d [] cs) \<longleftrightarrow>
      (\<forall>c\<in>set t. \<not> d c)
      \<and> (\<exists>pre post. cs = pre @ t @ post
            \<and> (pre = [] \<or> d (last pre)) \<and> (post = [] \<or> d (hd post)))"
      using Cons.IH [of "[]"] by simp
    have mem: "t \<in> set (split_from d cur (c # cs)) \<longleftrightarrow> t = rev cur \<or> t \<in> set (split_from d [] cs)"
      using True by auto
    show ?thesis
    proof
      assume "t \<in> set (split_from d cur (c # cs))"
      then consider "t = rev cur" | "t \<in> set (split_from d [] cs)" using mem by blast
      then show "(\<forall>c\<in>set t. \<not> d c)
        \<and> (\<exists>pre post. rev cur @ c # cs = pre @ t @ post
            \<and> (pre = [] \<or> d (last pre)) \<and> (post = [] \<or> d (hd post)))"
      proof cases
        case 1
        have f: "\<forall>c\<in>set t. \<not> d c" using Cons.prems 1 by simp
        have ex: "\<exists>pre post. rev cur @ c # cs = pre @ t @ post
            \<and> (pre = [] \<or> d (last pre)) \<and> (post = [] \<or> d (hd post))"
          by (rule exI [of _ "[]"], rule exI [of _ "c # cs"]) (simp add: 1 True)
        show ?thesis by (intro conjI) (rule f, rule ex)
      next
        case 2
        then obtain pre post where f: "\<forall>c\<in>set t. \<not> d c" and e: "cs = pre @ t @ post"
          and p: "pre = [] \<or> d (last pre)" and q: "post = [] \<or> d (hd post)"
          using ih by blast
        have l: "d (last (rev cur @ c # pre))" using p True by auto
        have ex: "\<exists>pre post. rev cur @ c # cs = pre @ t @ post
            \<and> (pre = [] \<or> d (last pre)) \<and> (post = [] \<or> d (hd post))"
          by (rule exI [of _ "rev cur @ c # pre"], rule exI [of _ post]) (use e l q in simp)
        show ?thesis by (intro conjI) (rule f, rule ex)
      qed
    next
      assume a: "(\<forall>c\<in>set t. \<not> d c)
        \<and> (\<exists>pre post. rev cur @ c # cs = pre @ t @ post
            \<and> (pre = [] \<or> d (last pre)) \<and> (post = [] \<or> d (hd post)))"
      then obtain pre post where f: "\<forall>c\<in>set t. \<not> d c"
        and e: "rev cur @ c # cs = pre @ t @ post"
        and p: "pre = [] \<or> d (last pre)" and q: "post = [] \<or> d (hd post)" by auto
      from e obtain us where
        "(rev cur = pre @ us \<and> us @ c # cs = t @ post) \<or> (rev cur @ us = pre \<and> c # cs = us @ t @ post)"
        by (auto simp: append_eq_append_conv2)
      then consider (A) "rev cur = pre @ us" "us @ c # cs = t @ post"
        | (B) "rev cur @ us = pre" "c # cs = us @ t @ post" by blast
      then have "t = rev cur \<or> t \<in> set (split_from d [] cs)"
      proof cases
        case A
        have pe: "pre = []"
        proof (rule ccontr)
          assume "pre \<noteq> []"
          then have "last pre \<in> set (rev cur)" using A(1) by simp
          then show False using p \<open>pre \<noteq> []\<close> Cons.prems by simp
        qed
        then have r: "rev cur @ c # cs = t @ post" using A by simp
        then obtain vs where
          "(rev cur = t @ vs \<and> vs @ c # cs = post) \<or> (rev cur @ vs = t \<and> c # cs = vs @ post)"
          by (auto simp: append_eq_append_conv2)
        then consider (A1) "rev cur = t @ vs" "vs @ c # cs = post"
          | (A2) "rev cur @ vs = t" "c # cs = vs @ post" by blast
        then have "t = rev cur"
        proof cases
          case A1
          have "vs = []"
          proof (rule ccontr)
            assume "vs \<noteq> []"
            then have "hd post = hd vs" "hd vs \<in> set (rev cur)" using A1 by auto
            moreover have "d (hd post)" using q A1(2) by auto
            ultimately show False using Cons.prems by simp
          qed
          then show ?thesis using A1 by simp
        next
          case A2
          have "vs = []"
          proof (rule ccontr)
            assume "vs \<noteq> []"
            then have "hd vs = c" using A2(2) by (cases vs) auto
            then have "c \<in> set t" using A2(1) \<open>vs \<noteq> []\<close> by (cases vs) auto
            then show False using f True by blast
          qed
          then show ?thesis using A2 by simp
        qed
        then show ?thesis by simp
      next
        case B
        show ?thesis
        proof (cases us)
          case Nil
          then have pr: "pre = rev cur" and ct: "c # cs = t @ post" using B by simp_all
          have "t = []"
          proof (rule ccontr)
            assume "t \<noteq> []"
            then have "hd t = c" using ct by (cases t) auto
            then have "c \<in> set t" using \<open>t \<noteq> []\<close> by (cases t) auto
            then show False using f True by blast
          qed
          moreover have "pre = []"
          proof (rule ccontr)
            assume "pre \<noteq> []"
            then have "last pre \<in> set pre" by (rule last_in_set)
            then have "last pre \<in> set (rev cur)" using pr by simp
            then show False using p \<open>pre \<noteq> []\<close> Cons.prems by simp
          qed
          ultimately show ?thesis using pr by simp
        next
          case (Cons u us')
          then have cs: "cs = us' @ t @ post" and pr: "pre = rev cur @ c # us'"
            using B by auto
          have "us' = [] \<or> d (last us')" using p pr by (cases "us' = []") auto
          then have "t \<in> set (split_from d [] cs)" using ih f cs q by blast
          then show ?thesis by simp
        qed
      qed
      then show "t \<in> set (split_from d cur (c # cs))" using mem by blast
    qed
  qed
qed

lemma findall_tokens_maximal_runs:
  "t \<in> set (findall_tokens q) \<longleftrightarrow> maximal_run q t"
proof -
  have "t \<in> set (findall_tokens q) \<longleftrightarrow>
      t \<noteq> [] \<and> t \<in> set (split_from (\<lambda>c. \<not> token_char c) [] q)"
    by (auto simp: findall_tokens_def findall_from_split)
  also have "\<dots> \<longleftrightarrow> maximal_run q t"
    using split_from_pieces [of "[]" "\<lambda>c. \<not> token_char c" t q]
    by (auto simp: maximal_run_def list_all_iff)
  finally show ?thesis .
qed

lemma kb_scan_filter:
  "kb_scan q items =
     filter (\<lambda>item. py_in (lower (item_id item)) q
                \<or> (\<exists>tok\<in>set (findall_tokens q). py_in tok (item_text item))) items"
  by (induction items) (simp_all add: list_ex_iff)

lemma kb_scan_maximal_runs:
  "kb_scan q items =
     filter (\<lambda>item. py_in (lower (item_id item)) q
                \<or> (\<exists>t. maximal_run q t \<and> py_in t (item_text item))) items"
proof -
  have "(\<exists>tok\<in>set (findall_tokens q). py_in tok x) = (\<exists>t. maximal_run q t \<and> py_in t x)" for x
    using findall_tokens_maximal_runs [of _ q] by blast
  then show ?thesis by (simp only: kb_scan_filter)
qed

text \<open>
  Claim C9, as the code has it. The hits are the records of the knowledge base, in its
  order, for which the lower-cased identifier occurs in the lower-cased query, or some
  token of the lower-cased query occurs in the lower-cased text made of the classifiers,
  the patterns, the detection hints, the fixes and the identifier, joined by spaces. A
  token is a maximal run of lower-case letters a to z, digits, hyphens, dots,
  underscores and slashes: these four punctuation characters do not delimit, and every
  other character does, white space and the other punctuation among them.
\<close>

theorem retrieve_vuln_kb_hits:
  "hits (retrieve_vuln_kb ts rq) =
     filter
       (\<lambda>item. py_in (lower (item_id item)) (lower (or_empty rq))
          \<or> (\<exists>t. maximal_run (lower (or_empty rq)) t
                \<and> py_in t
                  (lower (join_with '' ''
                    [join_with '' '' (cwe item), join_with '' '' (patterns item),
                     join_with '' '' (detection_hints item), join_with '' '' (item_fixes item),
                     item_id item]))))
       (vuln_kb ts)
   \<and> query (retrieve_vuln_kb ts rq) = rq
   \<and> (t \<in> set (findall_tokens s) \<longleftrightarrow> maximal_run s t)
   \<and> list_all token_char ''abcdefghijklmnopqrstuvwxyz0123456789-._/''
   \<and> list_all (\<lambda>c. \<not> token_char c)
        (CHR 0x09 # CHR 0x0A # '' !,:;()[]{}?=+*&|<>@#$%^~ABCDEFGHIJKLMNOPQRSTUVWXYZ'')"
proof (intro conjI)
  show "hits (retrieve_vuln_kb ts rq) =
     filter
       (\<lambda>item. py_in (lower (item_id item)) (lower (or_empty rq))
          \<or> (\<exists>t. maximal_run (lower (or_empty rq)) t
                \<and> py_in t
                  (lower (join_with '' ''
                    [join_with '' '' (cwe item), join_with '' '' (patterns item),
                     join_with '' '' (detection_hints item), join_with '' '' (item_fixes item),
                     item_id item]))))
       (vuln_kb ts)"
    by (simp add: retrieve_vuln_kb_def Let_def kb_scan_maximal_runs item_text_def)
  show "query (retrieve_vuln_kb ts rq) = rq" by (simp add: retrieve_vuln_kb_def)
  show "t \<in> set (findall_tokens s) \<longleftrightarrow> maximal_run s t"
    by (rule findall_tokens_maximal_runs)
  show "list_all token_char ''abcdefghijklmnopqrstuvwxyz0123456789-._/''"
    by code_simp
  show "list_all (\<lambda>c. \<not> token_char c)
        (CHR 0x09 # CHR 0x0A # '' !,:;()[]{}?=+*&|<>@#$%^~ABCDEFGHIJKLMNOPQRSTUVWXYZ'')"
    by code_simp
qed

theorem retrieve_vuln_kb_hits_witness:
  "maximal_run ''py/path-injection (cwe-22)'' ''py/path-injection''
   \<and> \<not> maximal_run ''py/path-injection (cwe-22)'' ''path''
   \<and> map item_id
       (filter
         (\<lambda>item. py_in (lower (item_id item)) (lower (or_empty (Some ''Path-Traversal (CWE-22), see'')))
            \<or> (\<exists>t. maximal_run (lower (or_empty (Some ''Path-Traversal (CWE-22), see''))) t
                  \<and> py_in t
                    (lower (join_with '' ''
                      [join_with '' '' (cwe item), join_with '' '' (patterns item),
                       join_with '' '' (detection_hints item), join_with '' '' (item_fixes item),
                       item_id item]))))
         [\<lparr>item_id = ''KB-1'', cwe = [''CWE-89''], patterns = [''execute(''],
           detection_hints = [''string concatenation''], item_fixes = [''bind parameters'']\<rparr>,
          \<lparr>item_id = ''KB-2'', cwe = [''CWE-22''], patterns = [''os.path.join''],
           detection_hints = [''user path''], item_fixes = [''normalise'']\<rparr>,
          \<lparr>item_id = ''see'', cwe = [], patterns = [], detection_hints = [], item_fixes = []\<rparr>,
          \<lparr>item_id = ''KB-4'', cwe = [''CWE-78''], patterns = [''path''],
           detection_hints = [], item_fixes = []\<rparr>])
     = [''KB-2'', ''see'']"
proof -
  let ?kb = "[\<lparr>item_id = ''KB-1'', cwe = [''CWE-89''], patterns = [''execute(''],
             detection_hints = [''string concatenation''], item_fixes = [''bind parameters'']\<rparr>,
            \<lparr>item_id = ''KB-2'', cwe = [''CWE-22''], patterns = [''os.path.join''],
             detection_hints = [''user path''], item_fixes = [''normalise'']\<rparr>,
            \<lparr>item_id = ''see'', cwe = [], patterns = [], detection_hints = [], item_fixes = []\<rparr>,
            \<lparr>item_id = ''KB-4'', cwe = [''CWE-78''], patterns = [''path''],
             detection_hints = [], item_fixes = []\<rparr>]"
  let ?ts = "\<lparr>vuln_kb = ?kb, suspicious_keywords = []\<rparr>"
  let ?q = "Some ''Path-Traversal (CWE-22), see''"
  have m1: "''py/path-injection'' \<in> set (findall_tokens ''py/path-injection (cwe-22)'')"
    by code_simp
  have m2: "''path'' \<notin> set (findall_tokens ''py/path-injection (cwe-22)'')"
    by code_simp
  have r1: "maximal_run ''py/path-injection (cwe-22)'' ''py/path-injection''"
    using retrieve_vuln_kb_hits [where t = "''py/path-injection''" and s = "''py/path-injection (cwe-22)''"]
      m1 by blast
  have r2: "\<not> maximal_run ''py/path-injection (cwe-22)'' ''path''"
    using retrieve_vuln_kb_hits [where t = "''path''" and s = "''py/path-injection (cwe-22)''"]
      m2 by blast
  have h: "map item_id (hits (retrieve_vuln_kb ?ts ?q)) = [''KB-2'', ''see'']"
    by code_simp
  have "hits (retrieve_vuln_kb ?ts ?q) =
     filter
       (\<lambda>item. py_in (lower (item_id item)) (lower (or_empty ?q))
          \<or> (\<exists>t. maximal_run (lower (or_empty ?q)) t
                \<and> py_in t
                  (lower (join_with '' ''
                    [join_with '' '' (cwe item), join_with '' '' (patterns item),
                     join_with '' '' (detection_hints item), join_with '' '' (item_fixes item),
                     item_id item]))))
       (vuln_kb ?ts)"
    using retrieve_vuln_kb_hits [where ts = ?ts and rq = ?q] by blast
  then have f: "map item_id
       (filter
         (\<lambda>item. py_in (lower (item_id item)) (lower (or_empty ?q))
            \<or> (\<exists>t. maximal_run (lower (or_empty ?q)) t
                  \<and> py_in t
                    (lower (join_with '' ''
                      [join_with '' '' (cwe item), join_with '' '' (patterns item),
                       join_with '' '' (detection_hints item), join_with '' '' (item_fixes item),
                       item_id item]))))
         (vuln_kb ?ts)) = [''KB-2'', ''see'']"
    using h by (simp only:)
  have v: "vuln_kb ?ts = ?kb" by simp
  show ?thesis using r1 r2 f unfolding v by blast
qed

text \<open>
  Claim C9 as it is stated takes the tokens between white space and punctuation. For
  the query \<open>py/path-injection\<close> these are \<open>py\<close>, \<open>path\<close> and \<open>injection\<close>, and a record
  with the patterns \<open>path\<close> and \<open>injection\<close> would be a hit; the code has the one token
  \<open>py/path-injection\<close> and returns no record.
\<close>

theorem retrieve_vuln_kb_hits_counterexample:
  "tokens_as_specified (lower ''py/path-injection'') = [''py'', ''path'', ''injection'']
   \<and> findall_tokens (lower ''py/path-injection'') = [''py/path-injection'']
   \<and> filter (hit_as_specified ''py/path-injection'')
        [\<lparr>item_id = ''KB-7'', cwe = [''CWE-22''], patterns = [''path'', ''injection''],
          detection_hints = [], item_fixes = []\<rparr>]
      = [\<lparr>item_id = ''KB-7'', cwe = [''CWE-22''], patterns = [''path'', ''injection''],
          detection_hints = [], item_fixes = []\<rparr>]
   \<and> hits (retrieve_vuln_kb
        \<lparr>vuln_kb =
           [\<lparr>item_id = ''KB-7'', cwe = [''CWE-22''], patterns = [''path'', ''injection''],
             detection_hints = [], item_fixes = []\<rparr>],
         suspicious_keywords = []\<rparr>
        (Some ''py/path-injection'')) = []"
  by code_simp

end
